theory Spec2Isabelle
  imports Complex_Main "HOL-Library.AList"
begin

section \<open>Python dictionaries\<close>

text \<open>
  A Python \<open>dict\<close> keeps its keys in insertion order, so it is modelled as an association
  list: \<open>d.get(k)\<close> is \<^const>\<open>map_of\<close>, \<open>d[k] = v\<close> is \<^const>\<open>AList.update\<close> (in place
  for a known key, appended for a new one), \<open>del d[k]\<close> is \<^const>\<open>AList.delete\<close>, and
  \<open>d.keys()\<close> is \<open>map fst\<close>. Time stamps (\<open>time.time()\<close>) are real numbers; the
  rounding of Python's floats is not modelled. Every function that reads the clock takes
  the reading as its argument \<open>now\<close>.
\<close>

type_synonym ('k, 'v) dict = "('k \<times> 'v) list"

definition keys :: "('k, 'v) dict \<Rightarrow> 'k list" where
  "keys d = map fst d"

definition has_key :: "'k \<Rightarrow> ('k, 'v) dict \<Rightarrow> bool" where
  "has_key k d = (k \<in> set (keys d))"

datatype py_error = KeyError | RuntimeError

section \<open>The topic subscriber plugin (ros2_topic_subscriber.py)\<close>

definition STATUS_CHECK_INTERVAL :: real where
  "STATUS_CHECK_INTERVAL = 10"

definition DYNAMIC_TOPIC_STALE_TIME :: real where
  "DYNAMIC_TOPIC_STALE_TIME = 3.0"

text \<open>
  A cache entry is the dictionary \<open>{"raw_message": msg, "received_at": t}\<close>. The readers
  fetch both fields with \<open>.get\<close> and test them against \<open>None\<close>, so both are optional.
\<close>

record 'm cache_entry =
  raw_message :: "'m option"
  received_at :: "real option"

text \<open>The handle of a live subscription: the keyword arguments it was created with.\<close>

record sub_handle =
  sub_topic :: string
  sub_msg_type :: string
  sub_transient_local :: bool

record 'm plugin =
  container_name :: string
  topics :: "(string, string) dict"
  static_topics :: "(string, string) dict"
  domain_id :: int
  subscribers :: "(string, sub_handle) dict"
  msg_cache :: "(string, 'm cache_entry) dict"
  is_running :: bool

text \<open>\<open>__init__\<close>: no subscription, an empty cache, not running.\<close>

definition init_plugin ::
  "string \<Rightarrow> (string, string) dict \<Rightarrow> (string, string) dict \<Rightarrow> int \<Rightarrow> 'm plugin" where
  "init_plugin name tps stps did =
     \<lparr>container_name = name, topics = tps, static_topics = stps, domain_id = did,
      subscribers = [], msg_cache = [], is_running = False\<rparr>"

text \<open>The dictionary \<open>{"data": ..., "received_at": ...}\<close> that a successful get returns.\<close>

record 'd topic_data =
  data :: 'd
  td_received_at :: "real option"

text \<open>
  \<open>get_topic_data\<close>. The conversion of a raw message into a serialisable tree
  (\<open>_convert_message_to_dict\<close>) walks Python objects by reflection; it is the parameter
  \<open>conv\<close>. It never yields \<open>None\<close> for a message that is not \<open>None\<close>.
\<close>

definition get_topic_data ::
  "('m \<Rightarrow> 'd) \<Rightarrow> real \<Rightarrow> string \<Rightarrow> 'm plugin \<Rightarrow> 'd topic_data option \<times> 'm plugin" where
  "get_topic_data conv now topic s =
     (case map_of (msg_cache s) topic of
        None \<Rightarrow> (None, s)
      | Some cached \<Rightarrow>
          if has_key topic (topics s) \<and>
             (case received_at cached of
                None \<Rightarrow> False
              | Some r \<Rightarrow> now - r > DYNAMIC_TOPIC_STALE_TIME)
          then (None, s\<lparr>msg_cache := AList.delete topic (msg_cache s)\<rparr>)
          else (case raw_message cached of
                  Some raw \<Rightarrow>
                    (Some \<lparr>data = conv raw, td_received_at = received_at cached\<rparr>, s)
                | None \<Rightarrow> (None, s)))"

definition list_topics :: "'m plugin \<Rightarrow> string list" where
  "list_topics s = keys (topics s) @ keys (static_topics s)"

definition is_topic_available :: "real \<Rightarrow> string \<Rightarrow> 'm plugin \<Rightarrow> bool \<times> 'm plugin" where
  "is_topic_available now topic s =
     (if \<not> has_key topic (topics s) \<and> \<not> has_key topic (static_topics s) then (False, s)
      else case map_of (msg_cache s) topic of
             None \<Rightarrow> (False, s)
           | Some cached \<Rightarrow>
               if has_key topic (topics s) \<and>
                  (case received_at cached of
                     None \<Rightarrow> False
                   | Some r \<Rightarrow> now - r > DYNAMIC_TOPIC_STALE_TIME)
               then (False, s\<lparr>msg_cache := AList.delete topic (msg_cache s)\<rparr>)
               else (True, s))"

definition clear_topic_cache :: "string \<Rightarrow> 'm plugin \<Rightarrow> 'm plugin" where
  "clear_topic_cache topic s =
     (if has_key topic (msg_cache s)
      then s\<lparr>msg_cache := AList.delete topic (msg_cache s)\<rparr> else s)"

definition clear_all_cache :: "'m plugin \<Rightarrow> 'm plugin" where
  "clear_all_cache s = s\<lparr>msg_cache := []\<rparr>"

text \<open>
  \<open>msg_callback\<close>, the closure that \<open>_create_subscriber\<close> builds for \<open>topic\<close>: it stores
  the message with the clock reading and checks nothing.
\<close>

definition msg_callback :: "string \<Rightarrow> real \<Rightarrow> 'm \<Rightarrow> 'm plugin \<Rightarrow> 'm plugin" where
  "msg_callback topic now msg s =
     s\<lparr>msg_cache :=
         AList.update topic \<lparr>raw_message = Some msg, received_at = Some now\<rparr> (msg_cache s)\<rparr>"

text \<open>
  \<open>get_all_topics_status\<close>. The body of each of its two loops is a function of the
  cached entry: it gives \<open>available\<close>, \<open>received_at\<close>, \<open>seconds_since_last_message\<close>
  and, for a dynamic topic, whether the entry is deleted.
\<close>

record status_info =
  configured :: bool
  available :: bool
  msg_type :: string
  subscribed :: bool
  st_received_at :: "real option"
  seconds_since_last_message :: "real option"

definition dynamic_topic_status ::
  "real \<Rightarrow> 'm cache_entry option \<Rightarrow> bool \<times> real option \<times> real option \<times> bool" where
  "dynamic_topic_status current_time cached =
     (case cached of
        None \<Rightarrow> (False, None, None, False)
      | Some c \<Rightarrow>
          (case received_at c of
             None \<Rightarrow> (True, None, None, False)
           | Some r \<Rightarrow>
               if r > 0 then
                 (if current_time - r \<le> DYNAMIC_TOPIC_STALE_TIME
                  then (True, Some r, Some (current_time - r), False)
                  else (False, Some r, None, True))
               else (True, Some r, None, False)))"

definition static_topic_status ::
  "real \<Rightarrow> 'm cache_entry option \<Rightarrow> bool \<times> real option \<times> real option" where
  "static_topic_status current_time cached =
     (case cached of
        None \<Rightarrow> (False, None, None)
      | Some c \<Rightarrow>
          (case received_at c of
             None \<Rightarrow> (True, None, None)
           | Some r \<Rightarrow>
               if r > 0 then (True, Some r, Some (current_time - r))
               else (True, Some r, None)))"

fun status_dynamic ::
  "real \<Rightarrow> (string, sub_handle) dict \<Rightarrow> (string \<times> string) list \<Rightarrow>
   (string, 'm cache_entry) dict \<times> (string, status_info) dict \<Rightarrow>
   (string, 'm cache_entry) dict \<times> (string, status_info) dict" where
  "status_dynamic current_time subs [] acc = acc"
| "status_dynamic current_time subs ((topic, ty) # rest) (cache, status) =
     (case dynamic_topic_status current_time (map_of cache topic) of
        (avail, received, secs, evict) \<Rightarrow>
          status_dynamic current_time subs rest
            (if evict then AList.delete topic cache else cache,
             AList.update topic
               \<lparr>configured = True, available = avail, msg_type = ty,
                subscribed = has_key topic subs, st_received_at = received,
                seconds_since_last_message = secs\<rparr> status))"

fun status_static ::
  "real \<Rightarrow> (string, sub_handle) dict \<Rightarrow> (string, 'm cache_entry) dict \<Rightarrow>
   (string \<times> string) list \<Rightarrow> (string, status_info) dict \<Rightarrow> (string, status_info) dict" where
  "status_static current_time subs cache [] status = status"
| "status_static current_time subs cache ((topic, ty) # rest) status =
     (case static_topic_status current_time (map_of cache topic) of
        (avail, received, secs) \<Rightarrow>
          status_static current_time subs cache rest
            (AList.update topic
               \<lparr>configured = True, available = avail, msg_type = ty,
                subscribed = has_key topic subs, st_received_at = received,
                seconds_since_last_message = secs\<rparr> status))"

definition get_all_topics_status ::
  "real \<Rightarrow> 'm plugin \<Rightarrow> (string, status_info) dict \<times> 'm plugin" where
  "get_all_topics_status current_time s =
     (case status_dynamic current_time (subscribers s) (topics s) (msg_cache s, []) of
        (cache, status) \<Rightarrow>
          (status_static current_time (subscribers s) cache (static_topics s) status,
           s\<lparr>msg_cache := cache\<rparr>))"

text \<open>
  One round of \<open>_periodic_status_check\<close> after its sleep, at clock reading
  \<open>current_time\<close>: the loop over a copy of the cache's keys that deletes stale dynamic
  entries, then the list of dynamic topics it warns about. The round does nothing once
  \<open>is_running\<close> is off.
\<close>

fun clear_stale ::
  "real \<Rightarrow> (string, string) dict \<Rightarrow> string list \<Rightarrow>
   (string, 'm cache_entry) dict \<times> string list \<Rightarrow>
   (string, 'm cache_entry) dict \<times> string list" where
  "clear_stale current_time tps [] acc = acc"
| "clear_stale current_time tps (topic_name # rest) (cache, stale_topics) =
     clear_stale current_time tps rest
       (if has_key topic_name tps then
          (case map_of cache topic_name of
             None \<Rightarrow> (cache, stale_topics)
           | Some cached \<Rightarrow>
               (case received_at cached of
                  None \<Rightarrow> (cache, stale_topics)
                | Some r \<Rightarrow>
                    if current_time - r > DYNAMIC_TOPIC_STALE_TIME
                    then (AList.delete topic_name cache, stale_topics @ [topic_name])
                    else (cache, stale_topics)))
        else (cache, stale_topics))"

definition periodic_status_check_round :: "real \<Rightarrow> 'm plugin \<Rightarrow> 'm plugin \<times> string list" where
  "periodic_status_check_round current_time s =
     (if \<not> is_running s then (s, [])
      else case clear_stale current_time (topics s) (keys (msg_cache s)) (msg_cache s, []) of
             (cache, stale_topics) \<Rightarrow>
               (s\<lparr>msg_cache := cache\<rparr>,
                filter (\<lambda>topic_name. \<not> has_key topic_name cache) (keys (topics s))))"

text \<open>
  \<open>_create_subscriber\<close> and \<open>start\<close>. Whether the middleware accepts a subscription is
  outside the program: \<open>creation_ok topic msg_type\<close> says whether the constructor
  \<open>ROS2Subscriber(...)\<close> returns (otherwise it raises). \<open>start\<close> returns the exception it
  raises, if any, with the plugin as it leaves it.
\<close>

definition create_subscriber ::
  "(string \<Rightarrow> string \<Rightarrow> bool) \<Rightarrow> string \<Rightarrow> string \<Rightarrow> 'm plugin \<Rightarrow> py_error + 'm plugin" where
  "create_subscriber creation_ok topic ty s =
     (if creation_ok topic ty
      then Inr (s\<lparr>subscribers :=
                   AList.update topic
                     \<lparr>sub_topic = topic, sub_msg_type = ty,
                      sub_transient_local = has_key topic (static_topics s)\<rparr>
                     (subscribers s)\<rparr>)
      else Inl RuntimeError)"

fun subscribe_all ::
  "(string \<Rightarrow> string \<Rightarrow> bool) \<Rightarrow> (string \<times> string) list \<Rightarrow>
   'm plugin \<times> string list \<Rightarrow> 'm plugin \<times> string list" where
  "subscribe_all creation_ok [] acc = acc"
| "subscribe_all creation_ok ((topic, ty) # rest) (s, failed_topics) =
     subscribe_all creation_ok rest
       (case create_subscriber creation_ok topic ty s of
          Inr s' \<Rightarrow> (s', failed_topics)
        | Inl e \<Rightarrow> (s, failed_topics @ [topic]))"

definition cleanup_subscribers :: "'m plugin \<Rightarrow> 'm plugin" where
  "cleanup_subscribers s = s\<lparr>subscribers := []\<rparr>"

definition start :: "(string \<Rightarrow> string \<Rightarrow> bool) \<Rightarrow> 'm plugin \<Rightarrow> py_error option \<times> 'm plugin" where
  "start creation_ok s =
     (if is_running s then (None, s)
      else case subscribe_all creation_ok (topics s) (s, []) of
        (s1, failed1) \<Rightarrow>
          (case subscribe_all creation_ok (static_topics s) (s1, failed1) of
             (s2, failed_topics) \<Rightarrow>
               if subscribers s2 = [] \<and> length (topics s) + length (static_topics s) > 0
               then (Some RuntimeError, cleanup_subscribers (s2\<lparr>is_running := False\<rparr>))
               else (None, s2\<lparr>is_running := True\<rparr>)))"

definition stop :: "'m plugin \<Rightarrow> 'm plugin" where
  "stop s =
     (if \<not> is_running s then s
      else (cleanup_subscribers (s\<lparr>is_running := False\<rparr>))\<lparr>msg_cache := []\<rparr>)"

text \<open>
  The operations that read the cache by age, and the callback, as one step function: a
  history of the plugin is a list of such operations.
\<close>

datatype 'm cache_op =
    OpGet string real
  | OpIsAvailable string real
  | OpStatus real
  | OpSweep real
  | OpPut string real 'm

fun apply_op :: "('m \<Rightarrow> 'd) \<Rightarrow> 'm cache_op \<Rightarrow> 'm plugin \<Rightarrow> 'm plugin" where
  "apply_op conv (OpGet topic now) s = snd (get_topic_data conv now topic s)"
| "apply_op conv (OpIsAvailable topic now) s = snd (is_topic_available now topic s)"
| "apply_op conv (OpStatus now) s = snd (get_all_topics_status now s)"
| "apply_op conv (OpSweep now) s = fst (periodic_status_check_round now s)"
| "apply_op conv (OpPut topic now msg) s = msg_callback topic now msg s"

fun apply_ops :: "('m \<Rightarrow> 'd) \<Rightarrow> 'm cache_op list \<Rightarrow> 'm plugin \<Rightarrow> 'm plugin" where
  "apply_ops conv [] s = s"
| "apply_ops conv (x # xs) s = apply_ops conv xs (apply_op conv x s)"

fun puts_to :: "string \<Rightarrow> 'm cache_op \<Rightarrow> bool" where
  "puts_to topic (OpPut t now msg) = (t = topic)"
| "puts_to topic x = False"

section \<open>The gateway's registry and the HTTP topic endpoint (state.py, routers/ros2.py)\<close>

text \<open>
  The process-wide state the routers read: the container names of the loaded
  configuration (\<open>None\<close> while no configuration is loaded) and the plugin of each
  container. A plugin is a shared object, so a handler that calls it returns the
  registry with the plugin as the calls left it.
\<close>

record 'm gateway =
  config_containers :: "string list option"
  ros2_plugins :: "(string, 'm plugin) dict"

definition get_ros2_plugin :: "'m gateway \<Rightarrow> string \<Rightarrow> 'm plugin option" where
  "get_ros2_plugin g container =
     (case config_containers g of
        None \<Rightarrow> None
      | Some cs \<Rightarrow> if container \<notin> set cs then None else map_of (ros2_plugins g) container)"

definition store_plugin :: "string \<Rightarrow> 'm plugin \<Rightarrow> 'm gateway \<Rightarrow> 'm gateway" where
  "store_plugin container p g = g\<lparr>ros2_plugins := AList.update container p (ros2_plugins g)\<rparr>"

datatype endpoint_error =
    HTTP_404_NOT_FOUND
  | HTTP_503_SERVICE_UNAVAILABLE
  | Uncaught py_error

record 'd topic_response =
  rsp_container :: string
  rsp_topic :: string
  rsp_msg_type :: string
  rsp_data :: "'d option"
  rsp_available :: bool
  rsp_domain_id :: int

text \<open>
  \<open>get_ros2_topic_data\<close> of routers/ros2.py. \<open>t_get\<close> and \<open>t_avail\<close> are the clock
  readings inside the two plugin calls. The subscript \<open>plugin.topics[topic]\<close> raises
  \<open>KeyError\<close> for a key the dictionary of dynamic topics does not have.
\<close>

definition get_ros2_topic_data ::
  "('m \<Rightarrow> 'd) \<Rightarrow> real \<Rightarrow> real \<Rightarrow> 'm gateway \<Rightarrow> string \<Rightarrow> string \<Rightarrow>
   (endpoint_error + 'd topic_response) \<times> 'm gateway" where
  "get_ros2_topic_data conv t_get t_avail g container topic =
     (case config_containers g of
        None \<Rightarrow> (Inl HTTP_503_SERVICE_UNAVAILABLE, g)
      | Some cs \<Rightarrow>
          if container \<notin> set cs then (Inl HTTP_404_NOT_FOUND, g)
          else
            (case get_ros2_plugin g container of
               None \<Rightarrow> (Inl HTTP_503_SERVICE_UNAVAILABLE, g)
             | Some p \<Rightarrow>
                 if topic \<notin> set (list_topics p) then (Inl HTTP_404_NOT_FOUND, g)
                 else
                   (case get_topic_data conv t_get topic p of
                      (cached_data, p1) \<Rightarrow>
                        (case is_topic_available t_avail topic p1 of
                           (avail, p2) \<Rightarrow>
                             (case map_of (topics p2) topic of
                                None \<Rightarrow> (Inl (Uncaught KeyError), store_plugin container p2 g)
                              | Some ty \<Rightarrow>
                                  (Inr \<lparr>rsp_container = container, rsp_topic = topic,
                                        rsp_msg_type = ty,
                                        rsp_data = map_option data cached_data,
                                        rsp_available = avail,
                                        rsp_domain_id = domain_id p2\<rparr>,
                                   store_plugin container p2 g))))))"

section \<open>Topic streaming over a WebSocket (routers/websocket.py)\<close>

definition LOG_POLL_INTERVAL :: real where
  "LOG_POLL_INTERVAL = 0.5"

definition SERVICE_STATUS_CHECK_INTERVAL :: real where
  "SERVICE_STATUS_CHECK_INTERVAL = 1.0"

definition INITIAL_LOG_TAIL :: int where
  "INITIAL_LOG_TAIL = 100"

definition FALLBACK_LOG_TAIL :: int where
  "FALLBACK_LOG_TAIL = 10000"

definition ROS2_TOPIC_MAX_SEND_RATE :: real where
  "ROS2_TOPIC_MAX_SEND_RATE = 10.0"

definition get_topic_msg_type :: "'m plugin \<Rightarrow> string \<Rightarrow> py_error + string" where
  "get_topic_msg_type p topic =
     (case map_of (topics p) topic of
        Some ty \<Rightarrow> Inr ty
      | None \<Rightarrow>
          (case map_of (static_topics p) topic of
             Some ty \<Rightarrow> Inr ty
           | None \<Rightarrow> Inl KeyError))"

text \<open>
  What one call of \<open>_poll_and_send_single_topic_data\<close> takes from outside the program:
  its own clock reading, the readings inside the two plugin calls, and whether
  \<open>_send_websocket_data\<close> gets the message through.
\<close>

record poll_clock =
  pc_now :: real
  pc_get :: real
  pc_avail :: real
  pc_send_ok :: bool

text \<open>
  The result of a poll: the returned triple (or the exception that escapes), the message
  handed to \<open>_send_websocket_data\<close> if any, and the plugin after the two reads.
\<close>

record ('m, 'd) poll_result =
  pr_return :: "py_error + bool \<times> real \<times> int option"
  pr_message :: "'d topic_response option"
  pr_plugin :: "'m plugin"

definition unavailable_notice :: "string \<Rightarrow> 'm plugin \<Rightarrow> string \<Rightarrow> string \<Rightarrow> 'd topic_response" where
  "unavailable_notice container p topic ty =
     \<lparr>rsp_container = container, rsp_topic = topic, rsp_msg_type = ty, rsp_data = None,
      rsp_available = False, rsp_domain_id = domain_id p\<rparr>"

text \<open>
  \<open>hash_str d\<close> stands for Python's \<open>hash(str(d))\<close>. The tracking state
  \<open>last_sent_data_hash\<close> is \<open>None\<close> (nothing sent yet), a hash, or the sentinel \<open>-1\<close>.
\<close>

definition poll_and_send_single_topic_data ::
  "('m \<Rightarrow> 'd) \<Rightarrow> ('d \<Rightarrow> int) \<Rightarrow> poll_clock \<Rightarrow> string \<Rightarrow> 'm plugin \<Rightarrow> string \<Rightarrow>
   real \<Rightarrow> int option \<Rightarrow> real \<Rightarrow> ('m, 'd) poll_result" where
  "poll_and_send_single_topic_data conv hash_str clk container plugin topic
       last_send_time last_sent_data_hash min_interval =
     (if pc_now clk - last_send_time < min_interval
      then \<lparr>pr_return = Inr (True, last_send_time, last_sent_data_hash),
            pr_message = None, pr_plugin = plugin\<rparr>
      else case get_topic_data conv (pc_get clk) topic plugin of
        (cached_data, p1) \<Rightarrow>
          (case is_topic_available (pc_avail clk) topic p1 of
             (avail, p2) \<Rightarrow>
               (case cached_data of
                  Some cd \<Rightarrow>
                    if Some (hash_str (data cd)) \<noteq> last_sent_data_hash \<or> \<not> avail then
                      (case get_topic_msg_type p2 topic of
                         Inl e \<Rightarrow> \<lparr>pr_return = Inl e, pr_message = None, pr_plugin = p2\<rparr>
                       | Inr ty \<Rightarrow>
                           \<lparr>pr_return =
                              Inr (pc_send_ok clk, pc_now clk, Some (hash_str (data cd))),
                            pr_message =
                              Some \<lparr>rsp_container = container, rsp_topic = topic,
                                    rsp_msg_type = ty, rsp_data = Some (data cd),
                                    rsp_available = avail, rsp_domain_id = domain_id p2\<rparr>,
                            pr_plugin = p2\<rparr>)
                    else \<lparr>pr_return = Inr (True, last_send_time, last_sent_data_hash),
                          pr_message = None, pr_plugin = p2\<rparr>
                | None \<Rightarrow>
                    if \<not> avail then
                      (if last_sent_data_hash = None then
                         (case get_topic_msg_type p2 topic of
                            Inl e \<Rightarrow> \<lparr>pr_return = Inl e, pr_message = None, pr_plugin = p2\<rparr>
                          | Inr ty \<Rightarrow>
                              \<lparr>pr_return = Inr (pc_send_ok clk, pc_now clk, Some (- 1)),
                               pr_message = Some (unavailable_notice container p2 topic ty),
                               pr_plugin = p2\<rparr>)
                       else if last_sent_data_hash \<noteq> Some (- 1) then
                         (case get_topic_msg_type p2 topic of
                            Inl e \<Rightarrow> \<lparr>pr_return = Inl e, pr_message = None, pr_plugin = p2\<rparr>
                          | Inr ty \<Rightarrow>
                              \<lparr>pr_return = Inr (pc_send_ok clk, pc_now clk, Some (- 1)),
                               pr_message = Some (unavailable_notice container p2 topic ty),
                               pr_plugin = p2\<rparr>)
                       else \<lparr>pr_return = Inr (True, last_send_time, last_sent_data_hash),
                             pr_message = None, pr_plugin = p2\<rparr>)
                    else \<lparr>pr_return = Inr (True, last_send_time, last_sent_data_hash),
                          pr_message = None, pr_plugin = p2\<rparr>)))"

text \<open>
  The \<open>while True\<close> loop of \<open>websocket_ros2_topic_data\<close>, run over what happens during
  the session: the middleware delivers a message to a callback, or the loop wakes up and
  polls. The loop ends when the connection is gone or an exception escapes the poll. The
  result lists every message that went through, with the send time the poll recorded for
  it (the clock reading that becomes \<open>last_send_time\<close>).
\<close>

datatype 'm topic_event =
    Publish string real 'm
  | PollTick poll_clock

fun topic_poll_loop ::
  "('m \<Rightarrow> 'd) \<Rightarrow> ('d \<Rightarrow> int) \<Rightarrow> string \<Rightarrow> string \<Rightarrow> real \<Rightarrow> 'm topic_event list \<Rightarrow>
   'm plugin \<Rightarrow> real \<Rightarrow> int option \<Rightarrow> (real \<times> 'd topic_response) list" where
  "topic_poll_loop conv hash_str container topic min_interval [] plugin lst lh = []"
| "topic_poll_loop conv hash_str container topic min_interval (Publish t now msg # evs)
       plugin lst lh =
     topic_poll_loop conv hash_str container topic min_interval evs
       (msg_callback t now msg plugin) lst lh"
| "topic_poll_loop conv hash_str container topic min_interval (PollTick clk # evs)
       plugin lst lh =
     (let r = poll_and_send_single_topic_data conv hash_str clk container plugin topic
                lst lh min_interval;
          out = (case pr_message r of None \<Rightarrow> [] | Some m \<Rightarrow> [(pc_now clk, m)])
      in case pr_return r of
           Inl e \<Rightarrow> []
         | Inr (connection_alive, new_lst, new_lh) \<Rightarrow>
             if \<not> connection_alive then []
             else out @ topic_poll_loop conv hash_str container topic min_interval evs
                          (pr_plugin r) new_lst new_lh)"

text \<open>
  What a poll finds when the feed is unavailable: the get returns nothing and the
  availability check that follows it says no. \<open>plugin_after_reads\<close> is the plugin as
  the two reads leave it.
\<close>

definition feed_unavailable_at :: "('m \<Rightarrow> 'd) \<Rightarrow> poll_clock \<Rightarrow> string \<Rightarrow> 'm plugin \<Rightarrow> bool" where
  "feed_unavailable_at conv clk topic plugin \<longleftrightarrow>
     fst (get_topic_data conv (pc_get clk) topic plugin) = None \<and>
     \<not> fst (is_topic_available (pc_avail clk) topic
            (snd (get_topic_data conv (pc_get clk) topic plugin)))"

definition plugin_after_reads :: "('m \<Rightarrow> 'd) \<Rightarrow> poll_clock \<Rightarrow> string \<Rightarrow> 'm plugin \<Rightarrow> 'm plugin" where
  "plugin_after_reads conv clk topic plugin =
     snd (is_topic_available (pc_avail clk) topic
            (snd (get_topic_data conv (pc_get clk) topic plugin)))"

fun publishes_to :: "string \<Rightarrow> 'm topic_event \<Rightarrow> bool" where
  "publishes_to topic (Publish t now msg) = (t = topic)"
| "publishes_to topic (PollTick clk) = False"

text \<open>The send times that fall into the one-second window that starts at \<open>w\<close>.\<close>

definition sent_in_window :: "real \<Rightarrow> (real \<times> 'a) list \<Rightarrow> real list" where
  "sent_in_window w sent = filter (\<lambda>t. w \<le> t \<and> t < w + 1) (map fst sent)"

text \<open>
  The start of the session: the checks, the immediate message, then the loop.
  \<open>cc_after\<close> is the clock reading taken after the immediate message went out; the
  message is listed when it went through.
\<close>

record connect_clock =
  cc_get :: real
  cc_avail :: real
  cc_send_ok :: bool
  cc_after :: real

datatype ws_error =
    ContainerNotFound
  | PluginNotAvailable
  | TopicNotConfigured

definition websocket_ros2_topic_data ::
  "('m \<Rightarrow> 'd) \<Rightarrow> ('d \<Rightarrow> int) \<Rightarrow> 'm gateway \<Rightarrow> string \<Rightarrow> string \<Rightarrow> connect_clock \<Rightarrow>
   'm topic_event list \<Rightarrow> ws_error + (real \<times> 'd topic_response) list" where
  "websocket_ros2_topic_data conv hash_str g container topic cc evs =
     (case get_ros2_plugin g container of
        None \<Rightarrow>
          (case config_containers g of
             None \<Rightarrow> Inl ContainerNotFound
           | Some cs \<Rightarrow>
               if container \<notin> set cs then Inl ContainerNotFound else Inl PluginNotAvailable)
      | Some plugin \<Rightarrow>
          if topic \<notin> set (list_topics plugin) then Inl TopicNotConfigured
          else
            let min_interval = 1.0 / ROS2_TOPIC_MAX_SEND_RATE in
            case get_topic_data conv (cc_get cc) topic plugin of
              (cached_data, p1) \<Rightarrow>
                (case is_topic_available (cc_avail cc) topic p1 of
                   (avail, p2) \<Rightarrow>
                     (case cached_data of
                        Some cd \<Rightarrow>
                          (case get_topic_msg_type p2 topic of
                             Inl e \<Rightarrow> Inr []
                           | Inr ty \<Rightarrow>
                               Inr (if cc_send_ok cc
                                    then (cc_after cc,
                                          \<lparr>rsp_container = container, rsp_topic = topic,
                                           rsp_msg_type = ty, rsp_data = Some (data cd),
                                           rsp_available = avail,
                                           rsp_domain_id = domain_id p2\<rparr>) #
                                         topic_poll_loop conv hash_str container topic
                                           min_interval evs p2 (cc_after cc)
                                           (Some (hash_str (data cd)))
                                    else topic_poll_loop conv hash_str container topic
                                           min_interval evs p2 0.0 None))
                      | None \<Rightarrow>
                          if \<not> avail then
                            (case get_topic_msg_type p2 topic of
                               Inl e \<Rightarrow> Inr []
                             | Inr ty \<Rightarrow>
                                 Inr (if cc_send_ok cc
                                      then (cc_after cc,
                                            unavailable_notice container p2 topic ty) #
                                           topic_poll_loop conv hash_str container topic
                                             min_interval evs p2 (cc_after cc) (Some (- 1))
                                      else topic_poll_loop conv hash_str container topic
                                             min_interval evs p2 0.0 None))
                          else Inr (topic_poll_loop conv hash_str container topic
                                      min_interval evs p2 0.0 None))))"

section \<open>The agent's log endpoint (agent/routers/logs.py)\<close>

text \<open>
  The log file is a list of bytes (\<^typ>\<open>string\<close>), or \<open>None\<close> when the path does not
  exist. A Python \<open>str\<close> is a list of code points.
\<close>

type_synonym py_str = "nat list"

text \<open>
  The agent turns the bytes it read into text with
  \<open>logs_bytes.decode("utf-8", errors="replace")\<close>. The decoder belongs to the Python
  interpreter, so it is a parameter. Decoding with \<open>errors="replace"\<close> never fails, and
  it gives the empty text for the empty byte string and for no other (an invalid byte
  or a cut-off character becomes U+FFFD); a decoder here is any function with that
  property. \<open>bytewise_decoder\<close>, which reads every byte as one code point, is one.
\<close>

typedef text_decoder = "{f :: string \<Rightarrow> py_str. \<forall>bs. f bs = [] \<longleftrightarrow> bs = []}"
  by (rule exI [of _ "map of_char"]) simp

setup_lifting type_definition_text_decoder

lift_definition decode :: "text_decoder \<Rightarrow> string \<Rightarrow> py_str" is "\<lambda>f. f" .

lift_definition bytewise_decoder :: text_decoder is "map of_char"
  by simp

text \<open>
  The \<open>tail\<close> program and the regular expression of \<open>strip_ansi_codes\<close> are parameters
  too: \<open>tail_cmd n content\<close> is the output of \<open>tail -n n\<close> as text, or \<open>None\<close> when it
  fails or times out. The reply carries the fields the gateway reads, \<open>logs\<close> and
  \<open>cursor\<close>.
\<close>

record log_reply =
  lg_logs :: py_str
  lg_cursor :: "int option"

definition file_bytes :: "string option \<Rightarrow> string" where
  "file_bytes file = (case file of None \<Rightarrow> [] | Some content \<Rightarrow> content)"

definition file_size :: "string option \<Rightarrow> int" where
  "file_size file = int (length (file_bytes file))"

definition get_service_logs ::
  "text_decoder \<Rightarrow> (int \<Rightarrow> string \<Rightarrow> py_str option) \<Rightarrow> (py_str \<Rightarrow> py_str) \<Rightarrow> string option \<Rightarrow>
   int \<Rightarrow> bool \<Rightarrow> int option \<Rightarrow> endpoint_error + log_reply" where
  "get_service_logs dec tail_cmd strip_ansi_codes file tail strip_ansi cursor =
     (case file of
        None \<Rightarrow> Inr \<lparr>lg_logs = [], lg_cursor = Some 0\<rparr>
      | Some content \<Rightarrow>
          (case cursor of
             Some c \<Rightarrow>
               (let current_size = int (length content);
                    c1 = (if c < 0 then 0 else c);
                    c2 = (if c1 > current_size then current_size else c1);
                    logs_bytes = drop (nat c2) content;
                    new_cursor = c2 + int (length logs_bytes);
                    logs = decode dec logs_bytes
                in Inr \<lparr>lg_logs = (if strip_ansi then strip_ansi_codes logs else logs),
                         lg_cursor = Some new_cursor\<rparr>)
           | None \<Rightarrow>
               (case tail_cmd tail content of
                  None \<Rightarrow> Inl (Uncaught RuntimeError)
                | Some out \<Rightarrow>
                    Inr \<lparr>lg_logs = (if strip_ansi then strip_ansi_codes out else out),
                         lg_cursor = Some (int (length content))\<rparr>)))"

text \<open>
  \<open>AgentClient.get_service_logs\<close>: the gateway's request. It never sets \<open>strip_ansi\<close>,
  and it raises (\<open>None\<close> here) when the agent cannot be reached (\<open>agent_ok\<close> is off) or
  answers with an error status.
\<close>

definition client_get_service_logs ::
  "text_decoder \<Rightarrow> (int \<Rightarrow> string \<Rightarrow> py_str option) \<Rightarrow> (py_str \<Rightarrow> py_str) \<Rightarrow> bool \<Rightarrow>
   string option \<Rightarrow> int \<Rightarrow> int option \<Rightarrow> log_reply option" where
  "client_get_service_logs dec tail_cmd strip_ansi_codes agent_ok file tail cursor =
     (if \<not> agent_ok then None
      else case get_service_logs dec tail_cmd strip_ansi_codes file tail False cursor of
             Inl e \<Rightarrow> None
           | Inr reply \<Rightarrow> Some reply)"

section \<open>Log streaming over a WebSocket (routers/websocket.py)\<close>

record log_session =
  cursor :: "int option"
  fallback_logs_sent :: bool
  last_service_status_check :: real
  service_is_up :: bool
  log_service_is_up :: bool

text \<open>
  What one round of the polling loop takes from outside: the clock reading, what
  \<open>_check_service_status\<close> answers if it is asked, whether the agent can be reached, and
  whether \<open>_send_websocket_logs\<close> gets the text through.
\<close>

record log_tick =
  lt_now :: real
  lt_status :: "bool \<times> bool"
  lt_agent_ok :: bool
  lt_send_ok :: bool

definition check_status_if_due :: "log_tick \<Rightarrow> log_session \<Rightarrow> log_session" where
  "check_status_if_due tk ss =
     (if lt_now tk - last_service_status_check ss \<ge> SERVICE_STATUS_CHECK_INTERVAL
      then ss\<lparr>service_is_up := fst (lt_status tk), log_service_is_up := snd (lt_status tk),
              last_service_status_check := lt_now tk\<rparr>
      else ss)"

text \<open>
  One round of the \<open>while True\<close> loop of \<open>websocket_service_logs\<close>: whether the loop goes
  on, the session state, and the text delivered to the client in this round.
\<close>

definition log_poll_step ::
  "text_decoder \<Rightarrow> (int \<Rightarrow> string \<Rightarrow> py_str option) \<Rightarrow> (py_str \<Rightarrow> py_str) \<Rightarrow> string option \<Rightarrow>
   log_tick \<Rightarrow> log_session \<Rightarrow> bool \<times> log_session \<times> py_str list" where
  "log_poll_step dec tail_cmd strip_ansi_codes file tk ss0 =
     (let ss = check_status_if_due tk ss0 in
      case cursor ss of
        Some c \<Rightarrow>
          (case client_get_service_logs dec tail_cmd strip_ansi_codes (lt_agent_ok tk) file
                  INITIAL_LOG_TAIL (Some c) of
             None \<Rightarrow> (True, ss, [])
           | Some agent_response \<Rightarrow>
               if lg_logs agent_response \<noteq> [] \<and> (service_is_up ss \<or> log_service_is_up ss)
               then (if \<not> lt_send_ok tk then (False, ss, [])
                     else (True, ss\<lparr>cursor := lg_cursor agent_response\<rparr>,
                           [lg_logs agent_response]))
               else (True, ss\<lparr>cursor := lg_cursor agent_response\<rparr>, []))
      | None \<Rightarrow>
          (case client_get_service_logs dec tail_cmd strip_ansi_codes (lt_agent_ok tk) file
                  FALLBACK_LOG_TAIL None of
             None \<Rightarrow> (True, ss, [])
           | Some agent_response \<Rightarrow>
               (case lg_cursor agent_response of
                  None \<Rightarrow> (True, ss, [])
                | Some new_cursor \<Rightarrow>
                    if \<not> fallback_logs_sent ss then
                      (if lg_logs agent_response \<noteq> [] then
                         (if \<not> lt_send_ok tk then (False, ss\<lparr>cursor := Some new_cursor\<rparr>, [])
                          else (True,
                                ss\<lparr>cursor := Some new_cursor, fallback_logs_sent := True\<rparr>,
                                [lg_logs agent_response]))
                       else (True,
                             ss\<lparr>cursor := Some new_cursor, fallback_logs_sent := True\<rparr>, []))
                    else (True, ss\<lparr>cursor := Some new_cursor\<rparr>, []))))"

text \<open>
  A session runs over what happens to the log file and when the loop wakes up: bytes
  are appended, the file is replaced (truncated, rotated away or removed), or the loop
  polls. The result is the list of texts delivered, the session state and the file at
  the end.
\<close>

datatype log_event =
    Append string
  | Replace "string option"
  | LogTick log_tick

fun append_log :: "string \<Rightarrow> string option \<Rightarrow> string option" where
  "append_log bs None = Some bs"
| "append_log bs (Some content) = Some (content @ bs)"

fun log_poll_loop ::
  "text_decoder \<Rightarrow> (int \<Rightarrow> string \<Rightarrow> py_str option) \<Rightarrow> (py_str \<Rightarrow> py_str) \<Rightarrow> log_event list \<Rightarrow>
   string option \<Rightarrow> log_session \<Rightarrow> py_str list \<times> log_session \<times> string option" where
  "log_poll_loop dec tail_cmd strip_ansi_codes [] file ss = ([], ss, file)"
| "log_poll_loop dec tail_cmd strip_ansi_codes (Append bs # evs) file ss =
     log_poll_loop dec tail_cmd strip_ansi_codes evs (append_log bs file) ss"
| "log_poll_loop dec tail_cmd strip_ansi_codes (Replace f # evs) file ss =
     log_poll_loop dec tail_cmd strip_ansi_codes evs f ss"
| "log_poll_loop dec tail_cmd strip_ansi_codes (LogTick tk # evs) file ss =
     (case log_poll_step dec tail_cmd strip_ansi_codes file tk ss of
        (continue, ss', out) \<Rightarrow>
          if \<not> continue then (out, ss', file)
          else (case log_poll_loop dec tail_cmd strip_ansi_codes evs file ss' of
                  (outs, ss'', file') \<Rightarrow> (out @ outs, ss'', file')))"

text \<open>The bytes of the file from offset \<open>a\<close> up to offset \<open>b\<close>.\<close>

definition file_range :: "int \<Rightarrow> int \<Rightarrow> string option \<Rightarrow> string" where
  "file_range a b file = take (nat b - nat a) (drop (nat a) (file_bytes file))"

text \<open>
  Ranges \<open>(a, b)\<close> of offsets that lie one after the other between \<open>c\<close> and \<open>c'\<close>:
  none is empty and none starts before the one in front of it ends.
\<close>

fun ascending_ranges :: "int \<Rightarrow> (int \<times> int) list \<Rightarrow> int \<Rightarrow> bool" where
  "ascending_ranges c [] c' = (c \<le> c')"
| "ascending_ranges c ((a, b) # rs) c' = (c \<le> a \<and> a < b \<and> ascending_ranges b rs c')"

fun is_append_or_tick :: "log_event \<Rightarrow> bool" where
  "is_append_or_tick (Replace f) = False"
| "is_append_or_tick x = True"

fun reports_some_service_up :: "log_event \<Rightarrow> bool" where
  "reports_some_service_up (LogTick tk) = (fst (lt_status tk) \<or> snd (lt_status tk))"
| "reports_some_service_up x = True"

section \<open>Shapes of cache entries\<close>

text \<open>
  The callback always stores a message with the clock reading. The readers also accept
  entries without a time stamp or without a message; these two predicates say what an
  optional entry has.
\<close>

definition timestamp_missing_or_positive :: "'m cache_entry option \<Rightarrow> bool" where
  "timestamp_missing_or_positive cached =
     (case cached of
        None \<Rightarrow> True
      | Some e \<Rightarrow> (case received_at e of None \<Rightarrow> True | Some r \<Rightarrow> r > 0))"

definition holds_message :: "'m cache_entry option \<Rightarrow> bool" where
  "holds_message cached = (case cached of None \<Rightarrow> True | Some e \<Rightarrow> raw_message e \<noteq> None)"

section \<open>Reading a dynamic feed\<close>

lemma has_key_map_of: "has_key k d \<longleftrightarrow> map_of d k \<noteq> None"
  by (simp add: has_key_def keys_def map_of_eq_None_iff)

text \<open>
  C1. A dynamic feed has a cache entry holding a message \<open>m\<close> received at \<open>r\<close>. A get at
  an age \<open>now - r\<close> above the staleness threshold of 3.0 seconds returns nothing and
  deletes the entry (the read itself evicts); a get at an age of at most 3.0 seconds
  returns the converted message with its time stamp and leaves the plugin as it was.
\<close>

theorem get_topic_data_dynamic_staleness:
  assumes "has_key topic (topics s)"
    and "map_of (msg_cache s) topic = Some e"
    and "received_at e = Some r"
    and "raw_message e = Some m"
  shows "(now - r > 3 \<longrightarrow>
            get_topic_data conv now topic s =
              (None, s\<lparr>msg_cache := AList.delete topic (msg_cache s)\<rparr>) \<and>
            \<not> has_key topic (AList.delete topic (msg_cache s))) \<and>
         (now' - r \<le> 3 \<longrightarrow>
            get_topic_data conv now' topic s =
              (Some \<lparr>data = conv m, td_received_at = Some r\<rparr>, s))"
  using assms
  by (simp add: get_topic_data_def DYNAMIC_TOPIC_STALE_TIME_def has_key_map_of delete_conv')

text \<open>
  The scenario of a dynamic feed \<open>/a\<close> that receives a value at time 0: a get at time 1
  returns it, a get at time 4 returns nothing and empties the cache.
\<close>

theorem get_topic_data_dynamic_staleness_witness:
  "get_topic_data (\<lambda>x. x) 4 ''/a''
     (msg_callback ''/a'' 0 (7::nat) (init_plugin ''robot'' [(''/a'', ''String'')] [] 30)) =
     (None, init_plugin ''robot'' [(''/a'', ''String'')] [] 30) \<and>
   get_topic_data (\<lambda>x. x) 1 ''/a''
     (msg_callback ''/a'' 0 (7::nat) (init_plugin ''robot'' [(''/a'', ''String'')] [] 30)) =
     (Some \<lparr>data = 7, td_received_at = Some 0\<rparr>,
      msg_callback ''/a'' 0 7 (init_plugin ''robot'' [(''/a'', ''String'')] [] 30))"
proof -
  let ?s = "msg_callback ''/a'' 0 (7::nat) (init_plugin ''robot'' [(''/a'', ''String'')] [] 30)"
  let ?e = "\<lparr>raw_message = Some (7::nat), received_at = Some 0\<rparr>"
  have h1: "has_key ''/a'' (topics ?s)"
    by (simp add: msg_callback_def init_plugin_def has_key_def keys_def)
  have h2: "map_of (msg_cache ?s) ''/a'' = Some ?e"
    by (simp add: msg_callback_def init_plugin_def)
  have h3: "received_at ?e = Some 0" and h4: "raw_message ?e = Some 7"
    by simp_all
  have del: "?s\<lparr>msg_cache := AList.delete ''/a'' (msg_cache ?s)\<rparr> =
      init_plugin ''robot'' [(''/a'', ''String'')] [] 30"
    by (simp add: msg_callback_def init_plugin_def)
  show ?thesis
    using get_topic_data_dynamic_staleness [OF h1 h2 h3 h4, of 4 "\<lambda>x. x" 1] del
    by simp
qed

section \<open>The status pass and the sweep, topic by topic\<close>

lemma status_dynamic_step:
  "status_dynamic now subs ((topic, ty) # rest) (cache, status) =
     status_dynamic now subs rest
       (if snd (snd (snd (dynamic_topic_status now (map_of cache topic))))
        then AList.delete topic cache else cache,
        AList.update topic
          \<lparr>configured = True,
           available = fst (dynamic_topic_status now (map_of cache topic)),
           msg_type = ty, subscribed = has_key topic subs,
           st_received_at = fst (snd (dynamic_topic_status now (map_of cache topic))),
           seconds_since_last_message =
             fst (snd (snd (dynamic_topic_status now (map_of cache topic))))\<rparr> status)"
  by (simp split: prod.splits)

lemma status_static_step:
  "status_static now subs cache ((topic, ty) # rest) status =
     status_static now subs cache rest
       (AList.update topic
          \<lparr>configured = True,
           available = fst (static_topic_status now (map_of cache topic)),
           msg_type = ty, subscribed = has_key topic subs,
           st_received_at = fst (snd (static_topic_status now (map_of cache topic))),
           seconds_since_last_message =
             snd (snd (static_topic_status now (map_of cache topic)))\<rparr> status)"
  by (simp split: prod.splits)

lemmas status_step = status_dynamic_step status_static_step
lemmas status_raw = status_dynamic.simps(2) status_static.simps(2)

lemma clear_stale_other:
  "\<not> has_key t tps \<Longrightarrow> map_of (fst (clear_stale now tps ks (c, st))) t = map_of c t"
  by (induction ks arbitrary: c st) (auto simp: delete_conv' split: option.splits)

lemma status_dynamic_other:
  "t \<notin> fst ` set xs \<Longrightarrow> map_of (fst (status_dynamic now subs xs (c, st))) t = map_of c t"
  by (induction xs arbitrary: c st) (auto simp: delete_conv' status_step simp del: status_raw)

lemma status_dynamic_keys:
  "k \<in> fst ` set (snd (status_dynamic now subs xs (c, st))) \<longleftrightarrow>
     k \<in> fst ` set st \<or> k \<in> fst ` set xs"
proof (induction xs arbitrary: c st)
  case Nil
  then show ?case by simp
next
  case (Cons x xs)
  obtain topic ty where x: "x = (topic, ty)" by (cases x)
  show ?case
    unfolding x status_dynamic_step Cons.IH dom_update by auto
qed

lemma status_static_keys:
  "k \<in> fst ` set (status_static now subs c xs st) \<longleftrightarrow>
     k \<in> fst ` set st \<or> k \<in> fst ` set xs"
proof (induction xs arbitrary: st)
  case Nil
  then show ?case by simp
next
  case (Cons x xs)
  obtain topic ty where x: "x = (topic, ty)" by (cases x)
  show ?case
    unfolding x status_static_step Cons.IH dom_update by auto
qed

lemma status_keys:
  "has_key k (fst (get_all_topics_status now s)) \<longleftrightarrow>
     has_key k (topics s) \<or> has_key k (static_topics s)"
proof -
  obtain c st where r: "status_dynamic now (subscribers s) (topics s) (msg_cache s, []) = (c, st)"
    by (cases "status_dynamic now (subscribers s) (topics s) (msg_cache s, [])")
  have "k \<in> fst ` set st \<longleftrightarrow> k \<in> fst ` set (topics s)"
    using status_dynamic_keys [of k now "subscribers s" "topics s" "msg_cache s" "[]"] r by simp
  then show ?thesis
    using status_static_keys [of k now "subscribers s" c "static_topics s" st] r
    by (simp add: get_all_topics_status_def has_key_def keys_def)
qed

section \<open>The configuration is fixed; entries of other feeds are left alone\<close>

lemma get_topic_data_config [simp]:
  "topics (snd (get_topic_data conv now t s)) = topics s"
  "static_topics (snd (get_topic_data conv now t s)) = static_topics s"
  by (simp_all add: get_topic_data_def split: option.splits)

lemma is_topic_available_config [simp]:
  "topics (snd (is_topic_available now t s)) = topics s"
  "static_topics (snd (is_topic_available now t s)) = static_topics s"
  by (simp_all add: is_topic_available_def split: option.splits)

lemma get_all_topics_status_config [simp]:
  "topics (snd (get_all_topics_status now s)) = topics s"
  "static_topics (snd (get_all_topics_status now s)) = static_topics s"
  by (simp_all add: get_all_topics_status_def split: prod.splits)

lemma periodic_status_check_round_config [simp]:
  "topics (fst (periodic_status_check_round now s)) = topics s"
  "static_topics (fst (periodic_status_check_round now s)) = static_topics s"
  by (simp_all add: periodic_status_check_round_def split: prod.splits)

lemma msg_callback_config [simp]:
  "topics (msg_callback t now m s) = topics s"
  "static_topics (msg_callback t now m s) = static_topics s"
  by (simp_all add: msg_callback_def)

lemma apply_op_config [simp]:
  "topics (apply_op conv x s) = topics s"
  "static_topics (apply_op conv x s) = static_topics s"
  by (cases x; simp)+

lemma apply_ops_config [simp]:
  "topics (apply_ops conv xs s) = topics s"
  "static_topics (apply_ops conv xs s) = static_topics s"
  by (induction xs arbitrary: s; simp)+

lemma get_topic_data_keeps:
  "\<not> has_key k (topics s) \<Longrightarrow>
     map_of (msg_cache (snd (get_topic_data conv now t s))) k = map_of (msg_cache s) k"
  by (auto simp: get_topic_data_def delete_conv' split: option.splits)

lemma is_topic_available_keeps:
  "\<not> has_key k (topics s) \<Longrightarrow>
     map_of (msg_cache (snd (is_topic_available now t s))) k = map_of (msg_cache s) k"
  by (auto simp: is_topic_available_def delete_conv' split: option.splits)

lemma get_all_topics_status_keeps:
  "\<not> has_key k (topics s) \<Longrightarrow>
     map_of (msg_cache (snd (get_all_topics_status now s))) k = map_of (msg_cache s) k"
proof -
  assume k: "\<not> has_key k (topics s)"
  obtain c st where r: "status_dynamic now (subscribers s) (topics s) (msg_cache s, []) = (c, st)"
    by (cases "status_dynamic now (subscribers s) (topics s) (msg_cache s, [])")
  have "map_of c k = map_of (msg_cache s) k"
    using status_dynamic_other [of k "topics s" now "subscribers s" "msg_cache s" "[]"] k r
    by (simp add: has_key_def keys_def)
  then show ?thesis
    using r by (simp add: get_all_topics_status_def)
qed

lemma periodic_status_check_round_keeps:
  "\<not> has_key k (topics s) \<Longrightarrow>
     map_of (msg_cache (fst (periodic_status_check_round now s))) k = map_of (msg_cache s) k"
proof -
  assume k: "\<not> has_key k (topics s)"
  obtain c st where
    r: "clear_stale now (topics s) (keys (msg_cache s)) (msg_cache s, []) = (c, st)"
    by (cases "clear_stale now (topics s) (keys (msg_cache s)) (msg_cache s, [])")
  have "map_of c k = map_of (msg_cache s) k"
    using clear_stale_other [OF k, of now "keys (msg_cache s)" "msg_cache s" "[]"] r by simp
  then show ?thesis
    using r by (simp add: periodic_status_check_round_def)
qed

lemma apply_op_keeps:
  "\<not> has_key k (topics s) \<Longrightarrow> \<not> puts_to k x \<Longrightarrow>
     map_of (msg_cache (apply_op conv x s)) k = map_of (msg_cache s) k"
  by (cases x)
     (simp_all add: get_topic_data_keeps is_topic_available_keeps get_all_topics_status_keeps
        periodic_status_check_round_keeps msg_callback_def update_conv')

lemma apply_ops_keeps:
  "\<not> has_key k (topics s) \<Longrightarrow> \<forall>x \<in> set xs. \<not> puts_to k x \<Longrightarrow>
     map_of (msg_cache (apply_ops conv xs s)) k = map_of (msg_cache s) k"
  by (induction xs arbitrary: s) (simp_all add: apply_op_keeps)

section \<open>Static feeds and unconfigured feeds\<close>

text \<open>
  C7. A static feed (configured as static and not as dynamic) receives the message \<open>m\<close>
  at time \<open>t0\<close>. After any history of gets, availability checks, status passes, sweeps
  and callbacks of other feeds, at any clock readings, its cache entry is still the one
  stored at \<open>t0\<close>, a get at any time \<open>now\<close> returns the message, and the feed is
  available.
\<close>

theorem static_feed_never_evicted:
  assumes "has_key topic (static_topics s)"
    and "\<not> has_key topic (topics s)"
    and "\<forall>x \<in> set ops. \<not> puts_to topic x"
  shows "map_of (msg_cache (apply_ops conv ops (msg_callback topic t0 m s))) topic =
           Some \<lparr>raw_message = Some m, received_at = Some t0\<rparr> \<and>
         fst (get_topic_data conv now topic (apply_ops conv ops (msg_callback topic t0 m s))) =
           Some \<lparr>data = conv m, td_received_at = Some t0\<rparr> \<and>
         fst (is_topic_available now topic (apply_ops conv ops (msg_callback topic t0 m s)))"
proof -
  let ?s' = "apply_ops conv ops (msg_callback topic t0 m s)"
  have "\<not> has_key topic (topics (msg_callback topic t0 m s))"
    using assms(2) by simp
  then have "map_of (msg_cache ?s') topic = map_of (msg_cache (msg_callback topic t0 m s)) topic"
    using assms(3) by (rule apply_ops_keeps)
  then have e: "map_of (msg_cache ?s') topic =
      Some \<lparr>raw_message = Some m, received_at = Some t0\<rparr>"
    by (simp add: msg_callback_def update_conv')
  have c: "\<not> has_key topic (topics ?s')" "has_key topic (static_topics ?s')"
    using assms(1,2) by simp_all
  show ?thesis
    using e c by (simp add: get_topic_data_def is_topic_available_def)
qed

text \<open>
  The scenario of a static feed \<open>/b\<close> that receives a value at time 0, beside a dynamic
  feed \<open>/a\<close>: after reads, a status pass and a sweep spread over 90 seconds, a get at
  time 100 still returns the value.
\<close>

theorem static_feed_never_evicted_witness:
  "fst (get_topic_data (\<lambda>x. x) 100 ''/b''
     (apply_ops (\<lambda>x. x)
        [OpPut ''/a'' 0 1, OpGet ''/b'' 50, OpIsAvailable ''/b'' 60, OpStatus 70, OpSweep 80,
         OpGet ''/a'' 90]
        (msg_callback ''/b'' 0 (5::nat)
           ((init_plugin ''robot'' [(''/a'', ''A'')] [(''/b'', ''B'')] 30)
              \<lparr>is_running := True\<rparr>)))) =
   Some \<lparr>data = 5, td_received_at = Some 0\<rparr>"
proof -
  let ?s = "(init_plugin ''robot'' [(''/a'', ''A'')] [(''/b'', ''B'')] 30)
              \<lparr>is_running := True\<rparr> :: nat plugin"
  let ?ops = "[OpPut ''/a'' 0 1, OpGet ''/b'' 50, OpIsAvailable ''/b'' 60, OpStatus 70,
               OpSweep 80, OpGet ''/a'' 90] :: nat cache_op list"
  have h1: "has_key ''/b'' (static_topics ?s)"
    by (simp add: init_plugin_def has_key_def keys_def)
  have h2: "\<not> has_key ''/b'' (topics ?s)"
    by (simp add: init_plugin_def has_key_def keys_def)
  have h3: "\<forall>x \<in> set ?ops. \<not> puts_to ''/b'' x"
    by simp
  show ?thesis
    using static_feed_never_evicted [OF h1 h2 h3, of "\<lambda>x. x" 0 5 100] by simp
qed

text \<open>
  C9. A topic that is in neither configured set receives a message: the callback stores
  it whatever the topic is, and a get at any time returns it. Whatever happens later,
  the topic is never a key of the status map and never in the list of configured topics.
\<close>

theorem unconfigured_topic_stored_not_listed:
  assumes "\<not> has_key topic (topics s)"
    and "\<not> has_key topic (static_topics s)"
  shows "map_of (msg_cache (msg_callback topic t0 m s)) topic =
           Some \<lparr>raw_message = Some m, received_at = Some t0\<rparr> \<and>
         fst (get_topic_data conv now topic (msg_callback topic t0 m s)) =
           Some \<lparr>data = conv m, td_received_at = Some t0\<rparr> \<and>
         \<not> has_key topic
             (fst (get_all_topics_status now' (apply_ops conv ops (msg_callback topic t0 m s)))) \<and>
         topic \<notin> set (list_topics (apply_ops conv ops (msg_callback topic t0 m s)))"
proof -
  have e: "map_of (msg_cache (msg_callback topic t0 m s)) topic =
      Some \<lparr>raw_message = Some m, received_at = Some t0\<rparr>"
    by (simp add: msg_callback_def update_conv')
  have g: "fst (get_topic_data conv now topic (msg_callback topic t0 m s)) =
      Some \<lparr>data = conv m, td_received_at = Some t0\<rparr>"
    using e assms(1) by (simp add: get_topic_data_def)
  have l: "topic \<notin> set (list_topics (apply_ops conv ops (msg_callback topic t0 m s)))"
    using assms by (simp add: list_topics_def has_key_def)
  have st: "\<not> has_key topic
      (fst (get_all_topics_status now' (apply_ops conv ops (msg_callback topic t0 m s))))"
    using assms by (simp add: status_keys)
  show ?thesis
    using e g l st by simp
qed

theorem unconfigured_topic_stored_not_listed_witness:
  "fst (get_topic_data (\<lambda>x. x) 100 ''/zz''
     (msg_callback ''/zz'' 0 (5::nat) (init_plugin ''robot'' [(''/a'', ''A'')] [(''/b'', ''B'')] 30))) =
     Some \<lparr>data = 5, td_received_at = Some 0\<rparr> \<and>
   map fst (fst (get_all_topics_status 1
     (msg_callback ''/zz'' 0 (5::nat)
        (init_plugin ''robot'' [(''/a'', ''A'')] [(''/b'', ''B'')] 30)))) = [''/a'', ''/b''] \<and>
   ''/zz'' \<notin> set (list_topics
     (apply_ops (\<lambda>x. x) [OpStatus 1, OpGet ''/zz'' 2]
        (msg_callback ''/zz'' 0 (5::nat)
           (init_plugin ''robot'' [(''/a'', ''A'')] [(''/b'', ''B'')] 30))))"
proof -
  let ?s = "init_plugin ''robot'' [(''/a'', ''A'')] [(''/b'', ''B'')] 30 :: nat plugin"
  have h1: "\<not> has_key ''/zz'' (topics ?s)"
    by (simp add: init_plugin_def has_key_def keys_def)
  have h2: "\<not> has_key ''/zz'' (static_topics ?s)"
    by (simp add: init_plugin_def has_key_def keys_def)
  have st: "map fst (fst (get_all_topics_status 1 (msg_callback ''/zz'' 0 (5::nat) ?s))) =
      [''/a'', ''/b'']"
    by (simp add: get_all_topics_status_def msg_callback_def init_plugin_def
          dynamic_topic_status_def static_topic_status_def)
  show ?thesis
    using unconfigured_topic_stored_not_listed
      [OF h1 h2, of 0 5 "\<lambda>x. x" 100 1 "[OpStatus 1, OpGet ''/zz'' 2]"] st
    by simp
qed

section \<open>The status pass on a dynamic topic\<close>

lemma status_dynamic_cache:
  "map_of (fst (status_dynamic now subs xs (c, st))) k =
     (if k \<in> fst ` set xs \<and> snd (snd (snd (dynamic_topic_status now (map_of c k))))
      then None else map_of c k)"
proof (induction xs arbitrary: c st)
  case Nil
  then show ?case by simp
next
  case (Cons x xs)
  obtain topic ty where x: "x = (topic, ty)" by (cases x)
  have none: "\<not> snd (snd (snd (dynamic_topic_status now (None :: 'a cache_entry option))))"
    by (simp add: dynamic_topic_status_def)
  show ?case
    unfolding x status_dynamic_step Cons.IH
    using none by (auto simp: delete_conv')
qed

lemma dynamic_topic_status_evicted:
  "snd (snd (snd (dynamic_topic_status now e))) \<Longrightarrow> \<not> fst (dynamic_topic_status now e)"
  by (auto simp: dynamic_topic_status_def split: option.splits if_splits)

lemma dynamic_topic_status_None:
  "\<not> fst (dynamic_topic_status now None)"
  by (simp add: dynamic_topic_status_def)

lemma status_dynamic_skip:
  "k \<notin> fst ` set xs \<Longrightarrow> map_of (snd (status_dynamic now subs xs (c, st))) k = map_of st k"
  by (induction xs arbitrary: c st)
     (auto simp: status_dynamic_step update_conv' simp del: status_raw)

lemma status_dynamic_available:
  "k \<in> fst ` set xs \<Longrightarrow>
     \<exists>i. map_of (snd (status_dynamic now subs xs (c, st))) k = Some i \<and>
         available i = fst (dynamic_topic_status now (map_of c k))"
proof (induction xs arbitrary: c st)
  case Nil
  then show ?case by simp
next
  case (Cons x xs)
  obtain topic ty where x: "x = (topic, ty)" by (cases x)
  define c1 where "c1 = (if snd (snd (snd (dynamic_topic_status now (map_of c topic))))
             then AList.delete topic c else c)"
  define st1 where "st1 = AList.update topic
          \<lparr>configured = True,
           available = fst (dynamic_topic_status now (map_of c topic)),
           msg_type = ty, subscribed = has_key topic subs,
           st_received_at = fst (snd (dynamic_topic_status now (map_of c topic))),
           seconds_since_last_message =
             fst (snd (snd (dynamic_topic_status now (map_of c topic))))\<rparr> st"
  have step: "status_dynamic now subs (x # xs) (c, st) = status_dynamic now subs xs (c1, st1)"
    unfolding x status_dynamic_step c1_def st1_def ..
  have same: "fst (dynamic_topic_status now (map_of c1 k)) =
              fst (dynamic_topic_status now (map_of c k))"
    using dynamic_topic_status_evicted [of now "map_of c topic"] dynamic_topic_status_None [of now]
    by (auto simp: delete_conv' c1_def)
  show ?case
  proof (cases "k \<in> fst ` set xs")
    case True
    from Cons.IH [OF True, of c1 st1] same show ?thesis
      unfolding step by simp
  next
    case False
    then have k: "k = topic" using Cons.prems x by auto
    have "map_of (snd (status_dynamic now subs xs (c1, st1))) k = map_of st1 k"
      using False by (rule status_dynamic_skip)
    then show ?thesis
      unfolding step by (simp add: k st1_def update_conv')
  qed
qed

lemma status_static_other:
  "k \<notin> fst ` set xs \<Longrightarrow> map_of (status_static now subs c xs st) k = map_of st k"
  by (induction xs arbitrary: st)
     (auto simp: status_static_step update_conv' simp del: status_raw)

lemma status_static_available:
  "k \<in> fst ` set xs \<Longrightarrow>
     \<exists>i. map_of (status_static now subs c xs st) k = Some i \<and>
         available i = fst (static_topic_status now (map_of c k))"
proof (induction xs arbitrary: st)
  case Nil
  then show ?case by simp
next
  case (Cons x xs)
  obtain topic ty where x: "x = (topic, ty)" by (cases x)
  show ?case
  proof (cases "k \<in> fst ` set xs")
    case True
    from Cons.IH [OF True] show ?thesis
      unfolding x status_static_step by simp
  next
    case False
    then have k: "k = topic" using Cons.prems x by auto
    show ?thesis
      unfolding x status_static_step using False
      by (simp add: k status_static_other update_conv')
  qed
qed

lemma get_all_topics_status_dynamic:
  assumes "has_key t (topics s)"
  shows "map_of (msg_cache (snd (get_all_topics_status now s))) t =
           (if snd (snd (snd (dynamic_topic_status now (map_of (msg_cache s) t))))
            then None else map_of (msg_cache s) t) \<and>
         (\<exists>i. map_of (fst (get_all_topics_status now s)) t = Some i \<and>
              available i = fst (dynamic_topic_status now (map_of (msg_cache s) t)))"
proof -
  obtain c st where r: "status_dynamic now (subscribers s) (topics s) (msg_cache s, []) = (c, st)"
    by (cases "status_dynamic now (subscribers s) (topics s) (msg_cache s, [])")
  have t: "t \<in> fst ` set (topics s)"
    using assms by (simp add: has_key_def keys_def)
  have c: "map_of c t =
      (if snd (snd (snd (dynamic_topic_status now (map_of (msg_cache s) t))))
       then None else map_of (msg_cache s) t)"
    using status_dynamic_cache [of now "subscribers s" "topics s" "msg_cache s" "[]" t] r t
    by simp
  obtain i where i: "map_of st t = Some i"
      "available i = fst (dynamic_topic_status now (map_of (msg_cache s) t))"
    using status_dynamic_available [OF t, of now "subscribers s" "msg_cache s" "[]"] r by auto
  have "\<exists>j. map_of (status_static now (subscribers s) c (static_topics s) st) t = Some j \<and>
            available j = fst (dynamic_topic_status now (map_of (msg_cache s) t))"
  proof (cases "t \<in> fst ` set (static_topics s)")
    case True
    have "fst (static_topic_status now (map_of c t)) =
          fst (dynamic_topic_status now (map_of (msg_cache s) t))"
      unfolding c
      by (auto simp: static_topic_status_def dynamic_topic_status_def split: option.splits)
    then show ?thesis
      using status_static_available [OF True, of now "subscribers s" c st] by simp
  next
    case False
    then show ?thesis
      using i by (simp add: status_static_other)
  qed
  then show ?thesis
    using c r by (simp add: get_all_topics_status_def)
qed

section \<open>The status pass against a get\<close>

text \<open>
  C5, as the code has it. For a dynamic feed whose cache entry, if there is one, has a
  time stamp that is missing or positive, a status pass at \<open>now\<close> leaves the feed's entry
  exactly as a get at \<open>now\<close> leaves it (both delete it or both keep it); and if the entry
  holds a message, the pass reports the feed available exactly when the get returns a
  value.
\<close>

theorem status_pass_matches_get:
  assumes "has_key t (topics s)"
    and "timestamp_missing_or_positive (map_of (msg_cache s) t)"
  shows "map_of (msg_cache (snd (get_all_topics_status now s))) t =
           map_of (msg_cache (snd (get_topic_data conv now t s))) t \<and>
         (\<exists>i. map_of (fst (get_all_topics_status now s)) t = Some i \<and>
              (holds_message (map_of (msg_cache s) t) \<longrightarrow>
                 available i = (fst (get_topic_data conv now t s) \<noteq> None)))"
proof -
  have ev: "map_of (msg_cache (snd (get_topic_data conv now t s))) t =
      (if snd (snd (snd (dynamic_topic_status now (map_of (msg_cache s) t))))
       then None else map_of (msg_cache s) t)"
    using assms
    by (auto simp: get_topic_data_def dynamic_topic_status_def delete_conv'
          timestamp_missing_or_positive_def split: option.splits)
  have av: "holds_message (map_of (msg_cache s) t) \<Longrightarrow>
      fst (dynamic_topic_status now (map_of (msg_cache s) t)) =
      (fst (get_topic_data conv now t s) \<noteq> None)"
    using assms
    by (auto simp: get_topic_data_def dynamic_topic_status_def holds_message_def
          timestamp_missing_or_positive_def split: option.splits)
  show ?thesis
    using get_all_topics_status_dynamic [OF assms(1), of now] ev av by auto
qed

text \<open>
  A dynamic feed \<open>/a\<close> received a message at time 1. At time 10 the status pass and the
  get both delete the entry, the pass reports the feed unavailable and the get returns
  nothing.
\<close>

theorem status_pass_matches_get_witness:
  "map_of (msg_cache (snd (get_all_topics_status 10
      (msg_callback ''/a'' 1 (5::nat) (init_plugin ''robot'' [(''/a'', ''A'')] [] 30))))) ''/a'' =
   None \<and>
   map_of (msg_cache (snd (get_topic_data (\<lambda>x. x) 10 ''/a''
      (msg_callback ''/a'' 1 (5::nat) (init_plugin ''robot'' [(''/a'', ''A'')] [] 30))))) ''/a'' =
   None \<and>
   (\<exists>i. map_of (fst (get_all_topics_status 10
      (msg_callback ''/a'' 1 (5::nat) (init_plugin ''robot'' [(''/a'', ''A'')] [] 30)))) ''/a'' =
        Some i \<and> \<not> available i)"
proof -
  let ?s = "msg_callback ''/a'' 1 (5::nat) (init_plugin ''robot'' [(''/a'', ''A'')] [] 30)"
  have h1: "has_key ''/a'' (topics ?s)"
    by (simp add: msg_callback_def init_plugin_def has_key_def keys_def)
  have h2: "timestamp_missing_or_positive (map_of (msg_cache ?s) ''/a'')"
    by (simp add: msg_callback_def init_plugin_def timestamp_missing_or_positive_def)
  have h3: "holds_message (map_of (msg_cache ?s) ''/a'')"
    by (simp add: msg_callback_def init_plugin_def holds_message_def)
  have g: "get_topic_data (\<lambda>x. x) 10 ''/a'' ?s =
      (None, init_plugin ''robot'' [(''/a'', ''A'')] [] 30)"
    by (simp add: get_topic_data_def msg_callback_def init_plugin_def has_key_def keys_def
          DYNAMIC_TOPIC_STALE_TIME_def)
  show ?thesis
    using status_pass_matches_get [OF h1 h2, of 10 "\<lambda>x. x"] h3 g
    by (simp add: init_plugin_def)
qed

text \<open>
  Without the condition on the time stamp the agreement fails: for an entry whose time
  stamp is present and not positive, here a message stamped 0, at time 10 the get
  deletes the entry and returns nothing, while the status pass keeps the entry and
  reports the feed available. Without a message it fails too: for an entry stamped 9
  that holds no message, at time 10 neither deletes it, the get returns nothing and the
  status pass reports the feed available.
\<close>

theorem status_pass_differs_from_get_counterexample:
  "get_topic_data (\<lambda>x. x) 10 ''/a''
     ((init_plugin ''robot'' [(''/a'', ''A'')] [] 30)
        \<lparr>msg_cache := [(''/a'', \<lparr>raw_message = Some (5::nat), received_at = Some 0\<rparr>)]\<rparr>) =
     (None, init_plugin ''robot'' [(''/a'', ''A'')] [] 30) \<and>
   msg_cache (snd (get_all_topics_status 10
     ((init_plugin ''robot'' [(''/a'', ''A'')] [] 30)
        \<lparr>msg_cache := [(''/a'', \<lparr>raw_message = Some (5::nat), received_at = Some 0\<rparr>)]\<rparr>))) =
     [(''/a'', \<lparr>raw_message = Some 5, received_at = Some 0\<rparr>)] \<and>
   map_option available (map_of (fst (get_all_topics_status 10
     ((init_plugin ''robot'' [(''/a'', ''A'')] [] 30)
        \<lparr>msg_cache := [(''/a'', \<lparr>raw_message = Some (5::nat), received_at = Some 0\<rparr>)]\<rparr>)))
     ''/a'') = Some True \<and>
   fst (get_topic_data (\<lambda>x. x) 10 ''/a''
     ((init_plugin ''robot'' [(''/a'', ''A'')] [] 30)
        \<lparr>msg_cache := [(''/a'', \<lparr>raw_message = (None :: nat option), received_at = Some 9\<rparr>)]\<rparr>)) =
     None \<and>
   map_option available (map_of (fst (get_all_topics_status 10
     ((init_plugin ''robot'' [(''/a'', ''A'')] [] 30)
        \<lparr>msg_cache := [(''/a'', \<lparr>raw_message = (None :: nat option), received_at = Some 9\<rparr>)]\<rparr>)))
     ''/a'') = Some True"
  by (simp add: get_topic_data_def get_all_topics_status_def init_plugin_def has_key_def
        keys_def DYNAMIC_TOPIC_STALE_TIME_def dynamic_topic_status_def)

section \<open>Starting the subscriptions\<close>

lemma subscribe_all_step:
  "subscribe_all ok ((topic, ty) # rest) (s, failed) =
     (if ok topic ty
      then subscribe_all ok rest
             (s\<lparr>subscribers :=
                  AList.update topic
                    \<lparr>sub_topic = topic, sub_msg_type = ty,
                     sub_transient_local = has_key topic (static_topics s)\<rparr>
                    (subscribers s)\<rparr>, failed)
      else subscribe_all ok rest (s, failed @ [topic]))"
  by (simp add: create_subscriber_def)

lemma has_key_update: "has_key k (AList.update t v d) \<longleftrightarrow> k = t \<or> has_key k d"
  by (auto simp: has_key_def keys_def dom_update)

lemma subscribe_all_failed:
  "snd (subscribe_all ok xs (s, failed)) =
     failed @ map fst (filter (\<lambda>(topic, ty). \<not> ok topic ty) xs)"
  by (induction xs arbitrary: s failed)
     (auto simp: subscribe_all_step simp del: subscribe_all.simps(2))

lemma subscribe_all_subscribers:
  "has_key k (subscribers (fst (subscribe_all ok xs (s, failed)))) \<longleftrightarrow>
     has_key k (subscribers s) \<or> (\<exists>ty. (k, ty) \<in> set xs \<and> ok k ty)"
proof (induction xs arbitrary: s failed)
  case Nil
  then show ?case by simp
next
  case (Cons x xs)
  obtain topic ty where x: "x = (topic, ty)" by (cases x)
  show ?case
    unfolding x subscribe_all_step by (auto simp: Cons.IH has_key_update)
qed

lemma subscribe_all_topics [simp]:
  "topics (fst (subscribe_all ok xs (s, failed))) = topics s"
  by (induction xs arbitrary: s failed)
     (auto simp: subscribe_all_step simp del: subscribe_all.simps(2))

lemma subscribe_all_static_topics [simp]:
  "static_topics (fst (subscribe_all ok xs (s, failed))) = static_topics s"
  by (induction xs arbitrary: s failed)
     (auto simp: subscribe_all_step simp del: subscribe_all.simps(2))

lemma subscribe_all_msg_cache [simp]:
  "msg_cache (fst (subscribe_all ok xs (s, failed))) = msg_cache s"
  by (induction xs arbitrary: s failed)
     (auto simp: subscribe_all_step simp del: subscribe_all.simps(2))

lemma subscribe_all_is_running [simp]:
  "is_running (fst (subscribe_all ok xs (s, failed))) = is_running s"
proof (induction xs arbitrary: s failed)
  case Nil
  then show ?case by simp
next
  case (Cons x xs)
  obtain topic ty where x: "x = (topic, ty)" by (cases x)
  show ?case
    unfolding x subscribe_all_step by (simp add: Cons.IH)
qed

lemma no_keys_iff: "d = [] \<longleftrightarrow> (\<forall>k. \<not> has_key k d)"
  by (cases d) (auto simp: has_key_def keys_def)

lemma start_subscribers:
  assumes "\<not> is_running s" and "subscribers s = []"
  shows "has_key k (subscribers (fst (subscribe_all ok (static_topics s)
            (subscribe_all ok (topics s) (s, []))))) \<longleftrightarrow>
         (\<exists>ty. (k, ty) \<in> set (topics s @ static_topics s) \<and> ok k ty)"
proof -
  obtain s1 f1 where r1: "subscribe_all ok (topics s) (s, []) = (s1, f1)"
    by (cases "subscribe_all ok (topics s) (s, [])")
  have "has_key k (subscribers s1) \<longleftrightarrow> (\<exists>ty. (k, ty) \<in> set (topics s) \<and> ok k ty)"
    using subscribe_all_subscribers [of k ok "topics s" s "[]"] r1 assms(2)
    by (simp add: has_key_def keys_def)
  then show ?thesis
    using subscribe_all_subscribers [of k ok "static_topics s" s1 f1] r1 by auto
qed

text \<open>
  C2. A plugin that is not running and holds no subscription (as after \<open>__init__\<close> or
  \<open>stop\<close>), with at least one configured feed, is started. \<open>start\<close> raises exactly when
  the creation of every configured subscription raised, and then it leaves the plugin
  stopped with no subscription. Otherwise it leaves the plugin running, subscribed to
  exactly the feeds whose creation returned. The two loops go through every feed,
  dynamic then static: the feeds they record as failed are exactly those whose creation
  raised, in order.
\<close>

theorem start_partial_failure:
  assumes "\<not> is_running s"
    and "subscribers s = []"
    and "topics s \<noteq> [] \<or> static_topics s \<noteq> []"
  shows "(fst (start ok s) \<noteq> None \<longleftrightarrow>
            (\<forall>(topic, ty) \<in> set (topics s @ static_topics s). \<not> ok topic ty)) \<and>
         (fst (start ok s) \<noteq> None \<longrightarrow>
            fst (start ok s) = Some RuntimeError \<and>
            \<not> is_running (snd (start ok s)) \<and> subscribers (snd (start ok s)) = []) \<and>
         (fst (start ok s) = None \<longrightarrow>
            is_running (snd (start ok s)) \<and>
            (\<forall>k. has_key k (subscribers (snd (start ok s))) \<longleftrightarrow>
                   (\<exists>ty. (k, ty) \<in> set (topics s @ static_topics s) \<and> ok k ty))) \<and>
         snd (subscribe_all ok (static_topics s) (subscribe_all ok (topics s) (s, []))) =
           map fst (filter (\<lambda>(topic, ty). \<not> ok topic ty) (topics s @ static_topics s))"
proof -
  obtain s1 f1 where r1: "subscribe_all ok (topics s) (s, []) = (s1, f1)"
    by (cases "subscribe_all ok (topics s) (s, [])")
  obtain s2 f2 where r2: "subscribe_all ok (static_topics s) (s1, f1) = (s2, f2)"
    by (cases "subscribe_all ok (static_topics s) (s1, f1)")
  have subs: "has_key k (subscribers s2) \<longleftrightarrow>
      (\<exists>ty. (k, ty) \<in> set (topics s @ static_topics s) \<and> ok k ty)" for k
    using start_subscribers [OF assms(1,2), of k ok] r1 r2 by simp
  have f1: "f1 = map fst (filter (\<lambda>(topic, ty). \<not> ok topic ty) (topics s))"
    using subscribe_all_failed [of ok "topics s" s "[]"] r1 by simp
  have f2: "f2 = map fst (filter (\<lambda>(topic, ty). \<not> ok topic ty) (topics s @ static_topics s))"
    using subscribe_all_failed [of ok "static_topics s" s1 f1] r2 f1 by simp
  have empty: "subscribers s2 = [] \<longleftrightarrow>
      (\<forall>(topic, ty) \<in> set (topics s @ static_topics s). \<not> ok topic ty)"
    unfolding no_keys_iff [of "subscribers s2"] subs by auto
  have total: "length (topics s) + length (static_topics s) > 0"
    using assms(3) by auto
  have st: "start ok s =
      (if subscribers s2 = []
       then (Some RuntimeError, cleanup_subscribers (s2\<lparr>is_running := False\<rparr>))
       else (None, s2\<lparr>is_running := True\<rparr>))"
    using assms(1) r1 r2 total by (simp add: start_def)
  show ?thesis
    unfolding st using empty subs f2 r1 r2
    by (simp add: cleanup_subscribers_def)
qed

text \<open>
  The scenario of the feeds \<open>x\<close>, \<open>y\<close>, \<open>z\<close> where only the creation for \<open>y\<close> raises:
  \<open>start\<close> returns normally, the plugin runs and is subscribed to \<open>x\<close> and \<open>z\<close>.
\<close>

theorem start_partial_failure_witness:
  "fst (start (\<lambda>topic ty. topic \<noteq> ''y'')
     (init_plugin ''robot'' [(''x'', ''T''), (''y'', ''T''), (''z'', ''T'')] [] 30
        :: nat plugin)) = None \<and>
   keys (subscribers (snd (start (\<lambda>topic ty. topic \<noteq> ''y'')
     (init_plugin ''robot'' [(''x'', ''T''), (''y'', ''T''), (''z'', ''T'')] [] 30
        :: nat plugin)))) = [''x'', ''z''] \<and>
   (\<forall>k. has_key k (subscribers (snd (start (\<lambda>topic ty. topic \<noteq> ''y'')
     (init_plugin ''robot'' [(''x'', ''T''), (''y'', ''T''), (''z'', ''T'')] [] 30
        :: nat plugin)))) \<longleftrightarrow> k = ''x'' \<or> k = ''z'') \<and>
   start (\<lambda>topic ty. False)
     (init_plugin ''robot'' [(''x'', ''T''), (''y'', ''T''), (''z'', ''T'')] [] 30
        :: nat plugin) =
     (Some RuntimeError,
      init_plugin ''robot'' [(''x'', ''T''), (''y'', ''T''), (''z'', ''T'')] [] 30)"
proof -
  let ?s = "init_plugin ''robot'' [(''x'', ''T''), (''y'', ''T''), (''z'', ''T'')] [] 30
              :: nat plugin"
  have h1: "\<not> is_running ?s" and h2: "subscribers ?s = []"
    and h3: "topics ?s \<noteq> [] \<or> static_topics ?s \<noteq> []"
    by (simp_all add: init_plugin_def)
  have ev: "fst (start (\<lambda>topic ty. topic \<noteq> ''y'') ?s) = None"
    "keys (subscribers (snd (start (\<lambda>topic ty. topic \<noteq> ''y'') ?s))) = [''x'', ''z'']"
    by (simp_all add: start_def init_plugin_def create_subscriber_def keys_def)
  have none: "\<forall>(topic, ty) \<in> set (topics ?s @ static_topics ?s). \<not> False"
    by simp
  have raised: "fst (start (\<lambda>topic ty. False) ?s) \<noteq> None"
    using start_partial_failure [OF h1 h2 h3, of "\<lambda>topic ty. False"] none by blast
  have state: "snd (start (\<lambda>topic ty. False) ?s) = ?s"
    by (simp add: start_def init_plugin_def create_subscriber_def cleanup_subscribers_def)
  have all_fail: "start (\<lambda>topic ty. False) ?s = (Some RuntimeError, ?s)"
    using start_partial_failure [OF h1 h2 h3, of "\<lambda>topic ty. False"] raised state
    by (metis prod.collapse)
  show ?thesis
    using start_partial_failure [OF h1 h2 h3, of "\<lambda>topic ty. topic \<noteq> ''y''"] ev all_fail
    by (auto simp: init_plugin_def)
qed

section \<open>The HTTP topic endpoint\<close>

text \<open>
  C10. The container is configured and has a plugin, and the topic is in the plugin's
  list of configured topics, so the endpoint's own checks pass. Then the endpoint
  returns a response exactly when the topic is a dynamic one; for a topic configured
  only as static the subscript on the dictionary of dynamic topics raises \<open>KeyError\<close>,
  whatever the cache holds.
\<close>

theorem get_ros2_topic_data_static_KeyError:
  assumes "config_containers g = Some cs"
    and "container \<in> set cs"
    and "map_of (ros2_plugins g) container = Some p"
    and "topic \<in> set (list_topics p)"
  shows "(has_key topic (static_topics p) \<and> \<not> has_key topic (topics p) \<longrightarrow>
            fst (get_ros2_topic_data conv t_get t_avail g container topic) =
              Inl (Uncaught KeyError)) \<and>
         ((\<exists>r. fst (get_ros2_topic_data conv t_get t_avail g container topic) = Inr r) \<longleftrightarrow>
            has_key topic (topics p))"
proof -
  obtain cd p1 where r1: "get_topic_data conv t_get topic p = (cd, p1)"
    by (cases "get_topic_data conv t_get topic p")
  obtain av p2 where r2: "is_topic_available t_avail topic p1 = (av, p2)"
    by (cases "is_topic_available t_avail topic p1")
  have "topics p1 = topics p"
    using get_topic_data_config(1) [of conv t_get topic p] r1 by simp
  then have tp: "topics p2 = topics p"
    using is_topic_available_config(1) [of t_avail topic p1] r2 by simp
  have plug: "get_ros2_plugin g container = Some p"
    using assms(1-3) by (simp add: get_ros2_plugin_def)
  show ?thesis
    using assms plug r1 r2 tp
    by (auto simp: get_ros2_topic_data_def has_key_map_of split: option.splits)
qed

text \<open>
  A static feed \<open>/b\<close> with a cached value, beside a dynamic feed \<open>/a\<close>: the endpoint
  raises for \<open>/b\<close>.
\<close>

theorem get_ros2_topic_data_static_KeyError_witness:
  "fst (get_ros2_topic_data (\<lambda>x. x) 1 1
     \<lparr>config_containers = Some [''robot''],
      ros2_plugins = [(''robot'',
        msg_callback ''/b'' 0 (5::nat)
          (init_plugin ''robot'' [(''/a'', ''A'')] [(''/b'', ''B'')] 30))]\<rparr>
     ''robot'' ''/b'') = Inl (Uncaught KeyError)"
proof -
  let ?p = "msg_callback ''/b'' 0 (5::nat)
              (init_plugin ''robot'' [(''/a'', ''A'')] [(''/b'', ''B'')] 30)"
  let ?g = "\<lparr>config_containers = Some [''robot''], ros2_plugins = [(''robot'', ?p)]\<rparr>"
  have h1: "config_containers ?g = Some [''robot'']" by simp
  have h2: "''robot'' \<in> set [''robot'']" by simp
  have h3: "map_of (ros2_plugins ?g) ''robot'' = Some ?p" by simp
  have h4: "''/b'' \<in> set (list_topics ?p)"
    by (simp add: list_topics_def keys_def init_plugin_def)
  have h5: "has_key ''/b'' (static_topics ?p) \<and> \<not> has_key ''/b'' (topics ?p)"
    by (simp add: has_key_def keys_def init_plugin_def)
  show ?thesis
    using get_ros2_topic_data_static_KeyError [OF h1 h2 h3 h4, of "\<lambda>x. x" 1 1] h5
    by blast
qed

section \<open>Topic streaming: one poll\<close>

lemma poll_cases:
  "(pr_message (poll_and_send_single_topic_data conv hash_str clk container plugin topic
        lst lh mi) = None \<and>
    (pr_return (poll_and_send_single_topic_data conv hash_str clk container plugin topic
        lst lh mi) = Inr (True, lst, lh) \<or>
     (\<exists>e. pr_return (poll_and_send_single_topic_data conv hash_str clk container plugin topic
        lst lh mi) = Inl e))) \<or>
   (\<exists>m h. pr_message (poll_and_send_single_topic_data conv hash_str clk container plugin
        topic lst lh mi) = Some m \<and>
      pr_return (poll_and_send_single_topic_data conv hash_str clk container plugin topic
        lst lh mi) = Inr (pc_send_ok clk, pc_now clk, h) \<and>
      mi \<le> pc_now clk - lst)"
  by (simp add: poll_and_send_single_topic_data_def
        split: prod.splits option.splits sum.splits)

section \<open>Topic streaming: the send rate\<close>

lemma topic_poll_loop_spaced:
  assumes "0 \<le> mi"
  shows "(\<forall>t \<in> set (map fst (topic_poll_loop conv hash_str container topic mi evs plugin
              lst lh)). mi \<le> t - lst) \<and>
         sorted_wrt (\<lambda>a b. mi \<le> b - a)
           (map fst (topic_poll_loop conv hash_str container topic mi evs plugin lst lh))"
proof (induction evs arbitrary: plugin lst lh)
  case Nil
  then show ?case by simp
next
  case (Cons e evs)
  show ?case
  proof (cases e)
    case (Publish t now msg)
    then show ?thesis
      using Cons.IH by simp
  next
    case (PollTick clk)
    define r where "r = poll_and_send_single_topic_data conv hash_str clk container plugin
        topic lst lh mi"
    have step: "topic_poll_loop conv hash_str container topic mi (e # evs) plugin lst lh =
        (case pr_return r of
           Inl e \<Rightarrow> []
         | Inr (connection_alive, new_lst, new_lh) \<Rightarrow>
             if \<not> connection_alive then []
             else (case pr_message r of None \<Rightarrow> [] | Some m \<Rightarrow> [(pc_now clk, m)]) @
                  topic_poll_loop conv hash_str container topic mi evs (pr_plugin r)
                    new_lst new_lh)"
      unfolding r_def using PollTick by (simp add: Let_def)
    have "(pr_message r = None \<and> (pr_return r = Inr (True, lst, lh) \<or>
             (\<exists>e. pr_return r = Inl e))) \<or>
          (\<exists>m h. pr_message r = Some m \<and>
             pr_return r = Inr (pc_send_ok clk, pc_now clk, h) \<and> mi \<le> pc_now clk - lst)"
      unfolding r_def by (rule poll_cases)
    then consider
        (quiet) "pr_message r = None" "pr_return r = Inr (True, lst, lh)"
      | (raised) err where "pr_message r = None" "pr_return r = Inl err"
      | (sent) m h where "pr_message r = Some m"
          "pr_return r = Inr (pc_send_ok clk, pc_now clk, h)" "mi \<le> pc_now clk - lst"
      by auto
    then show ?thesis
    proof cases
      case quiet
      then show ?thesis
        using Cons.IH [of "pr_plugin r" lst lh] by (simp add: step)
    next
      case raised
      then show ?thesis
        by (simp add: step)
    next
      case sent
      show ?thesis
      proof (cases "pc_send_ok clk")
        case False
        then show ?thesis
          using sent by (simp add: step)
      next
        case True
        have loop: "topic_poll_loop conv hash_str container topic mi (e # evs) plugin lst lh =
            (pc_now clk, m) #
            topic_poll_loop conv hash_str container topic mi evs (pr_plugin r) (pc_now clk) h"
          using sent True by (simp add: step)
        have later: "mi \<le> t - lst" if "mi \<le> t - pc_now clk" for t
          using that sent(3) assms by linarith
        show ?thesis
          unfolding loop
          using Cons.IH [of "pr_plugin r" "pc_now clk" h] sent(3) later by auto
      qed
    qed
  qed
qed

lemma spaced_span:
  "sorted_wrt (\<lambda>a b. d \<le> b - a) (x # xs) \<Longrightarrow>
     d * real (length xs) \<le> last (x # xs) - x"
proof (induction xs arbitrary: x)
  case Nil
  then show ?case by simp
next
  case (Cons y ys)
  have "d * real (length ys) \<le> last (y # ys) - y"
    using Cons.prems by (intro Cons.IH) simp
  moreover have "d \<le> y - x"
    using Cons.prems by simp
  ultimately show ?case
    by (simp add: algebra_simps)
qed

lemma spaced_window:
  assumes "sorted_wrt (\<lambda>a b. 1 / 10 \<le> b - a) (ts :: real list)"
  shows "length (filter (\<lambda>t. w \<le> t \<and> t < w + 1) ts) \<le> 10"
proof (cases "filter (\<lambda>t. w \<le> t \<and> t < w + 1) ts")
  case Nil
  then show ?thesis by simp
next
  case (Cons x xs)
  have sp: "sorted_wrt (\<lambda>a b. 1 / 10 \<le> b - a) (x # xs)"
    using sorted_wrt_filter [OF assms, of "\<lambda>t. w \<le> t \<and> t < w + 1"] Cons by simp
  have "set (x # xs) = {t \<in> set ts. w \<le> t \<and> t < w + 1}"
    using Cons by (metis set_filter)
  then have mem: "\<forall>t \<in> set (x # xs). w \<le> t \<and> t < w + 1"
    by blast
  have "last (x # xs) \<in> set (x # xs)"
    by (rule last_in_set) simp
  then have "last (x # xs) - x < 1"
    using mem by fastforce
  moreover have "1 / 10 * real (length xs) \<le> last (x # xs) - x"
    using spaced_span [OF sp] .
  ultimately have "real (length xs) < 10"
    by simp
  then show ?thesis
    using Cons by simp
qed

lemma topic_poll_loop_sorted:
  "0 \<le> mi \<Longrightarrow>
     sorted_wrt (\<lambda>a b. mi \<le> b - a)
       (map fst (topic_poll_loop conv hash_str container topic mi evs plugin lst lh))"
  using topic_poll_loop_spaced by blast

lemma topic_poll_loop_after:
  "0 \<le> mi \<Longrightarrow>
     (t, m) \<in> set (topic_poll_loop conv hash_str container topic mi evs plugin lst lh) \<Longrightarrow>
     mi \<le> t - lst"
  using topic_poll_loop_spaced [of mi conv hash_str container topic evs plugin lst lh]
  by force

lemma websocket_ros2_topic_data_shape:
  assumes "websocket_ros2_topic_data conv hash_str g container topic cc evs = Inr sent"
    and "mi = 1.0 / ROS2_TOPIC_MAX_SEND_RATE"
  obtains (none) "sent = []"
    | (loop) p lst lh where
        "sent = topic_poll_loop conv hash_str container topic mi evs p lst lh"
    | (first) m p lh where
        "sent = (cc_after cc, m) #
           topic_poll_loop conv hash_str container topic mi evs p (cc_after cc) lh"
  using assms(1)
  unfolding websocket_ros2_topic_data_def Let_def assms(2) [symmetric]
  by (auto split: option.splits prod.splits sum.splits if_splits)

lemma websocket_ros2_topic_data_spaced:
  assumes "websocket_ros2_topic_data conv hash_str g container topic cc evs = Inr sent"
    and "mi = 1.0 / ROS2_TOPIC_MAX_SEND_RATE"
  shows "sorted_wrt (\<lambda>a b. mi \<le> b - a) (map fst sent)"
proof -
  have mi: "0 \<le> mi"
    by (simp add: assms(2) ROS2_TOPIC_MAX_SEND_RATE_def)
  from assms show ?thesis
  proof (cases rule: websocket_ros2_topic_data_shape)
    case none
    then show ?thesis by simp
  next
    case (loop p lst lh)
    then show ?thesis
      using topic_poll_loop_spaced [OF mi, of conv hash_str container topic evs p lst lh]
      by simp
  next
    case (first m p lh)
    then show ?thesis
      using topic_poll_loop_spaced [OF mi, of conv hash_str container topic evs p
          "cc_after cc" lh]
      by simp
  qed
qed

lemma websocket_ros2_topic_data_sorted:
  assumes "websocket_ros2_topic_data conv hash_str g container topic cc evs = Inr sent"
  shows "sorted_wrt (\<lambda>a b. 1 / 10 \<le> b - a) (map fst sent)"
proof -
  have "1.0 / ROS2_TOPIC_MAX_SEND_RATE = 1 / 10"
    by (simp add: ROS2_TOPIC_MAX_SEND_RATE_def)
  then show ?thesis
    using websocket_ros2_topic_data_spaced [OF assms, of "1 / 10"] by simp
qed

text \<open>
  C3. With the minimum interval \<open>1 / ROS2_TOPIC_MAX_SEND_RATE\<close>, a tenth of a second:
  a poll whose clock reading is less than the interval after \<open>last_send_time\<close> sends
  nothing and returns the tracking state unchanged; a poll that hands a message to the
  socket returns its own clock reading as the new \<open>last_send_time\<close>, at least the
  interval after the old one. Hence in any run of the polling loop, whatever is
  published in between, the send times of any two messages are at least 0.1 apart and
  at most 10 of them fall into any window \<open>[w, w + 1)\<close>; the same holds for the whole
  session, with the message sent on connect.
\<close>

theorem topic_poll_rate_limit:
  "(pc_now clk - lst < 1 / ROS2_TOPIC_MAX_SEND_RATE \<longrightarrow>
      poll_and_send_single_topic_data conv hash_str clk container plugin topic lst lh
        (1 / ROS2_TOPIC_MAX_SEND_RATE) =
      \<lparr>pr_return = Inr (True, lst, lh), pr_message = None, pr_plugin = plugin\<rparr>) \<and>
   (pr_message (poll_and_send_single_topic_data conv hash_str clk container plugin topic
       lst lh mi) \<noteq> None \<longrightarrow>
      (\<exists>h. pr_return (poll_and_send_single_topic_data conv hash_str clk container plugin
         topic lst lh mi) = Inr (pc_send_ok clk, pc_now clk, h)) \<and>
      mi \<le> pc_now clk - lst) \<and>
   sorted_wrt (\<lambda>a b. 1 / 10 \<le> b - a)
     (map fst (topic_poll_loop conv hash_str container topic
        (1 / ROS2_TOPIC_MAX_SEND_RATE) evs plugin lst lh)) \<and>
   length (sent_in_window w (topic_poll_loop conv hash_str container topic
        (1 / ROS2_TOPIC_MAX_SEND_RATE) evs plugin lst lh)) \<le> 10 \<and>
   (websocket_ros2_topic_data conv hash_str g container topic cc evs = Inr sent \<longrightarrow>
      sorted_wrt (\<lambda>a b. 1 / 10 \<le> b - a) (map fst sent) \<and>
      length (sent_in_window w sent) \<le> 10)"
proof -
  have rate: "1 / ROS2_TOPIC_MAX_SEND_RATE = 1 / 10"
    by (simp add: ROS2_TOPIC_MAX_SEND_RATE_def)
  have throttled: "pc_now clk - lst < 1 / ROS2_TOPIC_MAX_SEND_RATE \<longrightarrow>
      poll_and_send_single_topic_data conv hash_str clk container plugin topic lst lh
        (1 / ROS2_TOPIC_MAX_SEND_RATE) =
      \<lparr>pr_return = Inr (True, lst, lh), pr_message = None, pr_plugin = plugin\<rparr>"
    by (simp add: poll_and_send_single_topic_data_def)
  have sends: "pr_message (poll_and_send_single_topic_data conv hash_str clk container
       plugin topic lst lh mi) \<noteq> None \<longrightarrow>
      (\<exists>h. pr_return (poll_and_send_single_topic_data conv hash_str clk container plugin
         topic lst lh mi) = Inr (pc_send_ok clk, pc_now clk, h)) \<and>
      mi \<le> pc_now clk - lst"
    using poll_cases [of conv hash_str clk container plugin topic lst lh mi] by auto
  have loop: "sorted_wrt (\<lambda>a b. 1 / 10 \<le> b - a)
     (map fst (topic_poll_loop conv hash_str container topic
        (1 / ROS2_TOPIC_MAX_SEND_RATE) evs plugin lst lh))"
    unfolding rate by (rule topic_poll_loop_sorted) simp
  have session: "sorted_wrt (\<lambda>a b. 1 / 10 \<le> b - a) (map fst sent)"
    if "websocket_ros2_topic_data conv hash_str g container topic cc evs = Inr sent"
    using that by (rule websocket_ros2_topic_data_sorted)
  show ?thesis
    using throttled sends loop session spaced_window [OF loop, of w]
      spaced_window [OF session, of w]
    by (simp add: sent_in_window_def)
qed

text \<open>
  A session on the dynamic feed \<open>/a\<close>, which publishes faster than the limit. The value
  cached on connect is sent at 0.5; the poll at 1.0 finds nothing new; the poll at 1.05
  sends the value published at 1.01; the poll at 1.1 comes 0.05 after that send and is
  skipped, although a newer value is cached.
\<close>

theorem topic_poll_rate_limit_witness:
  "poll_and_send_single_topic_data (\<lambda>x. x) int
     \<lparr>pc_now = 1.1, pc_get = 1.1, pc_avail = 1.1, pc_send_ok = True\<rparr> ''robot''
     (msg_callback ''/a'' 1.06 (3::nat) (init_plugin ''robot'' [(''/a'', ''A'')] [] 30))
     ''/a'' 1.05 (Some 2) (1 / ROS2_TOPIC_MAX_SEND_RATE) =
   \<lparr>pr_return = Inr (True, 1.05, Some 2), pr_message = None,
    pr_plugin = msg_callback ''/a'' 1.06 (3::nat) (init_plugin ''robot'' [(''/a'', ''A'')] [] 30)\<rparr> \<and>
   pr_return (poll_and_send_single_topic_data (\<lambda>x. x) int
     \<lparr>pc_now = 1.1, pc_get = 1.1, pc_avail = 1.1, pc_send_ok = True\<rparr> ''robot''
     (msg_callback ''/a'' 1.06 (3::nat) (init_plugin ''robot'' [(''/a'', ''A'')] [] 30))
     ''/a'' 1.05 (Some 2) 0.01) = Inr (True, 1.1, Some 3) \<and>
   websocket_ros2_topic_data (\<lambda>x. x) int
     \<lparr>config_containers = Some [''robot''],
      ros2_plugins = [(''robot'',
        msg_callback ''/a'' 0.4 (1::nat) (init_plugin ''robot'' [(''/a'', ''A'')] [] 30))]\<rparr>
     ''robot'' ''/a''
     \<lparr>cc_get = 0.5, cc_avail = 0.5, cc_send_ok = True, cc_after = 0.5\<rparr>
     [PollTick \<lparr>pc_now = 1, pc_get = 1, pc_avail = 1, pc_send_ok = True\<rparr>,
      Publish ''/a'' 1.01 2,
      PollTick \<lparr>pc_now = 1.05, pc_get = 1.05, pc_avail = 1.05, pc_send_ok = True\<rparr>,
      Publish ''/a'' 1.06 3,
      PollTick \<lparr>pc_now = 1.1, pc_get = 1.1, pc_avail = 1.1, pc_send_ok = True\<rparr>] =
   Inr [(0.5, \<lparr>rsp_container = ''robot'', rsp_topic = ''/a'', rsp_msg_type = ''A'',
               rsp_data = Some 1, rsp_available = True, rsp_domain_id = 30\<rparr>),
        (1.05, \<lparr>rsp_container = ''robot'', rsp_topic = ''/a'', rsp_msg_type = ''A'',
                rsp_data = Some 2, rsp_available = True, rsp_domain_id = 30\<rparr>)] \<and>
   length (sent_in_window 0.5
     [(0.5, \<lparr>rsp_container = ''robot'', rsp_topic = ''/a'', rsp_msg_type = ''A'',
             rsp_data = Some (1::nat), rsp_available = True, rsp_domain_id = 30\<rparr>),
      (1.05, \<lparr>rsp_container = ''robot'', rsp_topic = ''/a'', rsp_msg_type = ''A'',
              rsp_data = Some 2, rsp_available = True, rsp_domain_id = 30\<rparr>)]) \<le> 10"
proof -
  let ?clk = "\<lparr>pc_now = 1.1, pc_get = 1.1, pc_avail = 1.1, pc_send_ok = True\<rparr>"
  let ?p = "msg_callback ''/a'' 1.06 (3::nat) (init_plugin ''robot'' [(''/a'', ''A'')] [] 30)"
  let ?g = "\<lparr>config_containers = Some [''robot''],
      ros2_plugins = [(''robot'',
        msg_callback ''/a'' 0.4 (1::nat) (init_plugin ''robot'' [(''/a'', ''A'')] [] 30))]\<rparr>"
  let ?cc = "\<lparr>cc_get = 0.5, cc_avail = 0.5, cc_send_ok = True, cc_after = 0.5\<rparr>"
  let ?evs = "[PollTick \<lparr>pc_now = 1, pc_get = 1, pc_avail = 1, pc_send_ok = True\<rparr>,
      Publish ''/a'' 1.01 (2::nat),
      PollTick \<lparr>pc_now = 1.05, pc_get = 1.05, pc_avail = 1.05, pc_send_ok = True\<rparr>,
      Publish ''/a'' 1.06 3,
      PollTick \<lparr>pc_now = 1.1, pc_get = 1.1, pc_avail = 1.1, pc_send_ok = True\<rparr>]"
  let ?sent = "[(0.5, \<lparr>rsp_container = ''robot'', rsp_topic = ''/a'', rsp_msg_type = ''A'',
               rsp_data = Some (1::nat), rsp_available = True, rsp_domain_id = 30\<rparr>),
        (1.05, \<lparr>rsp_container = ''robot'', rsp_topic = ''/a'', rsp_msg_type = ''A'',
                rsp_data = Some 2, rsp_available = True, rsp_domain_id = 30\<rparr>)]"
  have h1: "pc_now ?clk - 1.05 < 1 / ROS2_TOPIC_MAX_SEND_RATE"
    by (simp add: ROS2_TOPIC_MAX_SEND_RATE_def)
  have h2: "pr_message (poll_and_send_single_topic_data (\<lambda>x. x) int ?clk ''robot'' ?p ''/a''
      1.05 (Some 2) 0.01) \<noteq> None"
    by (simp add: poll_and_send_single_topic_data_def get_topic_data_def
          is_topic_available_def msg_callback_def init_plugin_def has_key_def keys_def
          DYNAMIC_TOPIC_STALE_TIME_def get_topic_msg_type_def)
  have h3: "websocket_ros2_topic_data (\<lambda>x. x) int ?g ''robot'' ''/a'' ?cc ?evs = Inr ?sent"
    by (simp add: websocket_ros2_topic_data_def get_ros2_plugin_def list_topics_def
          poll_and_send_single_topic_data_def get_topic_data_def
          is_topic_available_def msg_callback_def init_plugin_def has_key_def keys_def
          DYNAMIC_TOPIC_STALE_TIME_def get_topic_msg_type_def ROS2_TOPIC_MAX_SEND_RATE_def
          Let_def)
  have ev: "pr_return (poll_and_send_single_topic_data (\<lambda>x. x) int ?clk ''robot'' ?p ''/a''
      1.05 (Some 2) 0.01) = Inr (True, 1.1, Some 3)"
    by (simp add: poll_and_send_single_topic_data_def get_topic_data_def
          is_topic_available_def msg_callback_def init_plugin_def has_key_def keys_def
          DYNAMIC_TOPIC_STALE_TIME_def get_topic_msg_type_def)
  show ?thesis
    using topic_poll_rate_limit [where clk = ?clk and lst = "1.05" and conv = "\<lambda>x. x"
        and hash_str = int and container = "''robot''" and plugin = ?p and topic = "''/a''"
        and lh = "Some 2" and mi = "0.01" and evs = ?evs and w = "0.5" and g = ?g
        and cc = ?cc and sent = ?sent] h1 h2 h3 ev
    by simp
qed

section \<open>Log streaming: truncation\<close>

lemma decode_empty_iff [simp]: "decode dec bs = [] \<longleftrightarrow> bs = []"
  by transfer simp

lemma decode_Nil [simp]: "decode dec [] = []"
  by transfer simp

lemma decode_bytewise: "decode bytewise_decoder bs = map of_char bs"
  by transfer simp

lemma check_status_if_due_cursor [simp]:
  "cursor (check_status_if_due tk ss) = cursor ss"
  by (simp add: check_status_if_due_def)

lemma get_service_logs_cursor:
  "get_service_logs dec tail_cmd strip_ansi_codes file tail False (Some c) =
     Inr \<lparr>lg_logs = decode dec (file_range c (file_size file) file),
          lg_cursor = Some (file_size file)\<rparr>"
  by (cases "file")
     (auto simp: get_service_logs_def file_range_def file_size_def file_bytes_def Let_def)

text \<open>
  C8. The session's cursor is \<open>c\<close> and the log file is now shorter than \<open>c\<close> (it was
  truncated or rotated; a file that is gone counts as empty). If the agent answers, the
  next round of the loop sends nothing, goes on, and sets the cursor to the size of the
  file.
\<close>

theorem truncated_log_resets_cursor:
  assumes "cursor ss = Some c"
    and "lt_agent_ok tk"
    and "file_size file < c"
  shows "log_poll_step dec tail_cmd strip_ansi_codes file tk ss =
           (True, (check_status_if_due tk ss)\<lparr>cursor := Some (file_size file)\<rparr>, [])"
proof -
  have "file_range c (file_size file) file = []"
    using assms(3) by (simp add: file_range_def file_size_def)
  then show ?thesis
    using assms(1,2)
    by (simp add: log_poll_step_def client_get_service_logs_def get_service_logs_cursor
          Let_def)
qed

text \<open>
  The scenario: the cursor is 500 and the file has been truncated to 100 bytes; the next
  round leaves the cursor at 100.
\<close>

theorem truncated_log_resets_cursor_witness:
  "log_poll_step bytewise_decoder (\<lambda>n content. Some (map of_char content)) (\<lambda>x. x)
     (Some (replicate 100 CHR ''x''))
     \<lparr>lt_now = 10, lt_status = (True, True), lt_agent_ok = True, lt_send_ok = True\<rparr>
     \<lparr>cursor = Some 500, fallback_logs_sent = False, last_service_status_check = 9.5,
      service_is_up = True, log_service_is_up = True\<rparr> =
   (True,
    \<lparr>cursor = Some 100, fallback_logs_sent = False, last_service_status_check = 9.5,
     service_is_up = True, log_service_is_up = True\<rparr>, [])"
proof -
  let ?tk = "\<lparr>lt_now = 10, lt_status = (True, True), lt_agent_ok = True, lt_send_ok = True\<rparr>"
  let ?ss = "\<lparr>cursor = Some 500, fallback_logs_sent = False,
              last_service_status_check = 9.5, service_is_up = True,
              log_service_is_up = True\<rparr>"
  let ?file = "Some (replicate 100 CHR ''x'')"
  have h1: "cursor ?ss = Some 500" by simp
  have h2: "lt_agent_ok ?tk" by simp
  have h3: "file_size ?file < 500" by (simp add: file_size_def file_bytes_def)
  show ?thesis
    using truncated_log_resets_cursor [OF h1 h2 h3, of bytewise_decoder
        "\<lambda>n content. Some (map of_char content)" "\<lambda>x. x"]
    by (simp add: check_status_if_due_def SERVICE_STATUS_CHECK_INTERVAL_def file_size_def
          file_bytes_def)
qed

section \<open>Log streaming: appends\<close>

lemma file_range_empty [simp]: "file_range c c file = []"
  by (simp add: file_range_def)

lemma file_range_append:
  assumes "0 \<le> a" and "a \<le> b" and "b \<le> c"
  shows "file_range a b file @ file_range b c file = file_range a c file"
proof -
  have split: "nat c - nat a = (nat b - nat a) + (nat c - nat b)"
    using assms by arith
  have at: "nat b - nat a + nat a = nat b"
    using assms by arith
  show ?thesis
    unfolding file_range_def split by (simp add: take_add at)
qed

lemma file_bytes_append_log: "file_bytes (append_log bs file) = file_bytes file @ bs"
  by (cases "file") (simp_all add: file_bytes_def)

lemma file_range_grow:
  assumes "b \<le> file_size file" and "file_bytes file' = file_bytes file @ bs"
  shows "file_range a b file' = file_range a b file"
proof -
  have "nat b \<le> length (file_bytes file)"
    using assms(1) by (simp add: file_size_def)
  then show ?thesis
    by (simp add: file_range_def assms(2))
qed

lemma ascending_ranges_weaken:
  "ascending_ranges c rs c' \<Longrightarrow> c0 \<le> c \<Longrightarrow> ascending_ranges c0 rs c'"
  by (cases rs) auto

lemma file_range_nonempty: "file_range a b file \<noteq> [] \<Longrightarrow> 0 \<le> a \<Longrightarrow> a < b"
  by (auto simp: file_range_def)

text \<open>
  One round, started with a cursor inside the file: it delivers nothing or the decoded
  bytes from the cursor to the end of the file, and the cursor does not go back. If some
  service is reported up, the cursor moves only over bytes that were delivered.
\<close>

lemma log_poll_step_range:
  assumes "cursor ss = Some c"
    and "0 \<le> c" and "c \<le> file_size file"
    and "log_poll_step dec tail_cmd strip_ansi_codes file tk ss = (continue, ss', out)"
  shows "\<exists>c' r. cursor ss' = Some c' \<and> c \<le> c' \<and> c' \<le> file_size file \<and>
           out = map (\<lambda>(a, b). decode dec (file_range a b file)) r \<and>
           (r = [] \<or> r = [(c, c')] \<and> c < c') \<and>
           ((service_is_up ss \<or> log_service_is_up ss) \<and>
            (fst (lt_status tk) \<or> snd (lt_status tk)) \<longrightarrow>
              (service_is_up ss' \<or> log_service_is_up ss') \<and>
              concat (map (\<lambda>(a, b). file_range a b file) r) = file_range c c' file)"
proof -
  define ss1 where "ss1 = check_status_if_due tk ss"
  define bytes where "bytes = file_range c (file_size file) file"
  have up1: "service_is_up ss1 \<or> log_service_is_up ss1"
    if "service_is_up ss \<or> log_service_is_up ss" "fst (lt_status tk) \<or> snd (lt_status tk)"
    using that by (auto simp: ss1_def check_status_if_due_def)
  have cur: "cursor ss1 = Some c"
    using assms(1) by (simp add: ss1_def)
  have ne: "c < file_size file" if "bytes \<noteq> []"
    using file_range_nonempty [of c "file_size file" "file"] assms(2) that
    by (simp add: bytes_def)
  have step: "log_poll_step dec tail_cmd strip_ansi_codes file tk ss =
      (if \<not> lt_agent_ok tk then (True, ss1, [])
       else if bytes \<noteq> [] \<and> (service_is_up ss1 \<or> log_service_is_up ss1)
       then (if \<not> lt_send_ok tk then (False, ss1, [])
             else (True, ss1\<lparr>cursor := Some (file_size file)\<rparr>, [decode dec bytes]))
       else (True, ss1\<lparr>cursor := Some (file_size file)\<rparr>, []))"
    using cur
    by (simp add: log_poll_step_def client_get_service_logs_def get_service_logs_cursor
          Let_def ss1_def bytes_def)
  consider (kept) "ss' = ss1" "out = []"
    | (sent) "bytes \<noteq> []" "ss' = ss1\<lparr>cursor := Some (file_size file)\<rparr>"
        "out = [decode dec bytes]"
    | (skipped) "\<not> (bytes \<noteq> [] \<and> (service_is_up ss1 \<or> log_service_is_up ss1))"
        "ss' = ss1\<lparr>cursor := Some (file_size file)\<rparr>" "out = []"
  proof (cases "lt_agent_ok tk")
    case False
    then have "(continue, ss', out) = (True, ss1, [])"
      using assms(4) step by simp
    then show ?thesis using kept by simp
  next
    case True
    show ?thesis
    proof (cases "bytes = []")
      case empty: True
      then have "(continue, ss', out) = (True, ss1\<lparr>cursor := Some (file_size file)\<rparr>, [])"
        using assms(4) step True by simp
      then show ?thesis using skipped empty by simp
    next
      case full: False
      show ?thesis
      proof (cases "service_is_up ss1 \<or> log_service_is_up ss1")
        case down: False
        then have "(continue, ss', out) =
            (True, ss1\<lparr>cursor := Some (file_size file)\<rparr>, [])"
          using assms(4) step True by simp
        then show ?thesis using skipped down by simp
      next
        case up: True
        show ?thesis
        proof (cases "lt_send_ok tk")
          case False
          then have "(continue, ss', out) = (False, ss1, [])"
            using assms(4) step True full up by simp
          then show ?thesis using kept by simp
        next
          case ok: True
          then have "(continue, ss', out) =
              (True, ss1\<lparr>cursor := Some (file_size file)\<rparr>, [decode dec bytes])"
            using assms(4) step True full up by simp
          then show ?thesis using sent full by simp
        qed
      qed
    qed
  qed
  then show ?thesis
  proof cases
    case kept
    have "cursor ss' = Some c" "c \<le> c" "c \<le> file_size file"
        "out = map (\<lambda>(a, b). decode dec (file_range a b file)) []"
      using kept cur assms(3) by simp_all
    moreover have "(service_is_up ss \<or> log_service_is_up ss) \<and>
        (fst (lt_status tk) \<or> snd (lt_status tk)) \<longrightarrow>
        (service_is_up ss' \<or> log_service_is_up ss') \<and>
        concat (map (\<lambda>(a, b). file_range a b file) []) = file_range c c file"
      using up1 kept by simp
    ultimately show ?thesis by blast
  next
    case sent
    have "cursor ss' = Some (file_size file)" "c \<le> file_size file"
        "out = map (\<lambda>(a, b). decode dec (file_range a b file)) [(c, file_size file)]"
        "c < file_size file"
      using sent assms(3) ne by (simp_all add: bytes_def)
    moreover have "(service_is_up ss \<or> log_service_is_up ss) \<and>
        (fst (lt_status tk) \<or> snd (lt_status tk)) \<longrightarrow>
        (service_is_up ss' \<or> log_service_is_up ss') \<and>
        concat (map (\<lambda>(a, b). file_range a b file) [(c, file_size file)]) =
          file_range c (file_size file) file"
      using up1 sent by simp
    ultimately show ?thesis by blast
  next
    case skipped
    have "cursor ss' = Some (file_size file)" "c \<le> file_size file"
        "out = map (\<lambda>(a, b). decode dec (file_range a b file)) []"
      using skipped assms(3) by simp_all
    moreover have "(service_is_up ss \<or> log_service_is_up ss) \<and>
        (fst (lt_status tk) \<or> snd (lt_status tk)) \<longrightarrow>
        (service_is_up ss' \<or> log_service_is_up ss') \<and>
        concat (map (\<lambda>(a, b). file_range a b file) []) =
          file_range c (file_size file) file"
      using up1 skipped by (auto simp: bytes_def)
    ultimately show ?thesis by blast
  qed
qed

lemma ascending_ranges_le: "ascending_ranges c rs c' \<Longrightarrow> c \<le> c'"
  by (induction rs arbitrary: c) fastforce+

text \<open>
  C4, as the code has it. A session polls with a cursor inside the log file while bytes
  are appended. Each text delivered is the decoding of a range of bytes of the final
  file, and these ranges lie one after the other between the initial and the final
  cursor: no byte is fetched for delivery twice. If moreover no status check of the
  session reports both the service and its log service down, the ranges leave no gap:
  put end to end they are exactly the bytes of the final file from the initial cursor
  up to the final cursor. Each range is decoded on its own.
\<close>

theorem log_tailing_contiguous:
  assumes "\<forall>e \<in> set evs. is_append_or_tick e"
    and "cursor ss = Some c"
    and "0 \<le> c" and "c \<le> file_size file"
    and "log_poll_loop dec tail_cmd strip_ansi_codes evs file ss = (outs, ss', file')"
  shows "\<exists>c' rs bs. cursor ss' = Some c' \<and> c' \<le> file_size file' \<and>
           file_bytes file' = file_bytes file @ bs \<and>
           outs = map (\<lambda>(a, b). decode dec (file_range a b file')) rs \<and>
           ascending_ranges c rs c' \<and>
           ((service_is_up ss \<or> log_service_is_up ss) \<and>
            (\<forall>e \<in> set evs. reports_some_service_up e) \<longrightarrow>
              concat (map (\<lambda>(a, b). file_range a b file') rs) = file_range c c' file')"
  using assms
proof (induction evs arbitrary: "file" ss c outs ss' file')
  case Nil
  then have "cursor ss' = Some c" "c \<le> file_size file'"
      "file_bytes file' = file_bytes file @ []"
      "outs = map (\<lambda>(a, b). decode dec (file_range a b file')) []"
      "ascending_ranges c [] c"
      "concat (map (\<lambda>(a, b). file_range a b file') []) = file_range c c file'"
    by simp_all
  then show ?case by blast
next
  case (Cons e evs)
  have rest: "\<forall>e \<in> set evs. is_append_or_tick e"
    using Cons.prems(1) by simp
  show ?case
  proof (cases e)
    case (Append b)
    have size: "c \<le> file_size (append_log b file)"
      using Cons.prems(4) by (simp add: file_size_def file_bytes_append_log)
    have run: "log_poll_loop dec tail_cmd strip_ansi_codes evs (append_log b file) ss =
        (outs, ss', file')"
      using Cons.prems(5) Append by simp
    from Cons.IH [OF rest Cons.prems(2,3) size run]
    obtain c' rs bs where r: "cursor ss' = Some c'" "c' \<le> file_size file'"
        "file_bytes file' = file_bytes (append_log b file) @ bs"
        "outs = map (\<lambda>(a, b). decode dec (file_range a b file')) rs"
        "ascending_ranges c rs c'"
        "(service_is_up ss \<or> log_service_is_up ss) \<and>
         (\<forall>e \<in> set evs. reports_some_service_up e) \<longrightarrow>
           concat (map (\<lambda>(a, b). file_range a b file') rs) = file_range c c' file'"
      by blast
    have "file_bytes file' = file_bytes file @ (b @ bs)"
      using r(3) by (simp add: file_bytes_append_log)
    moreover have "(service_is_up ss \<or> log_service_is_up ss) \<and>
         (\<forall>e \<in> set (e # evs). reports_some_service_up e) \<longrightarrow>
           concat (map (\<lambda>(a, b). file_range a b file') rs) = file_range c c' file'"
      using r(6) by simp
    ultimately show ?thesis
      using r(1,2,4,5) by blast
  next
    case (Replace f)
    then show ?thesis
      using Cons.prems(1) by simp
  next
    case (LogTick tk)
    obtain continue ss1 out where
      step: "log_poll_step dec tail_cmd strip_ansi_codes file tk ss = (continue, ss1, out)"
      by (cases "log_poll_step dec tail_cmd strip_ansi_codes file tk ss")
    from log_poll_step_range [OF Cons.prems(2,3,4) step]
    obtain c1 r1 where c1: "cursor ss1 = Some c1" "c \<le> c1" "c1 \<le> file_size file"
        "out = map (\<lambda>(a, b). decode dec (file_range a b file)) r1"
        "r1 = [] \<or> r1 = [(c, c1)] \<and> c < c1"
        "(service_is_up ss \<or> log_service_is_up ss) \<and>
         (fst (lt_status tk) \<or> snd (lt_status tk)) \<longrightarrow>
           (service_is_up ss1 \<or> log_service_is_up ss1) \<and>
           concat (map (\<lambda>(a, b). file_range a b file) r1) = file_range c c1 file"
      by blast
    have asc1: "ascending_ranges c (r1 @ rs) c'" if "ascending_ranges c1 rs c'" for rs c'
      using that c1(2,5) ascending_ranges_weaken [of c1 rs c' c] by auto
    have grow: "map (\<lambda>(a, b). decode dec (file_range a b f2)) r1 =
          map (\<lambda>(a, b). decode dec (file_range a b file)) r1 \<and>
        map (\<lambda>(a, b). file_range a b f2) r1 = map (\<lambda>(a, b). file_range a b file) r1 \<and>
        file_range c c1 f2 = file_range c c1 file"
      if "file_bytes f2 = file_bytes file @ bs" for f2 bs
      using c1(5) file_range_grow [OF c1(3) that] by auto
    have tick_up: "fst (lt_status tk) \<or> snd (lt_status tk)"
      if "\<forall>e \<in> set (e # evs). reports_some_service_up e"
      using that LogTick by simp
    show ?thesis
    proof (cases continue)
      case False
      then have res: "outs = out" "ss' = ss1" "file' = file"
        using Cons.prems(5) LogTick step by simp_all
      have "cursor ss' = Some c1" "c1 \<le> file_size file'"
          "file_bytes file' = file_bytes file @ []"
          "outs = map (\<lambda>(a, b). decode dec (file_range a b file')) r1"
          "ascending_ranges c r1 c1"
        using res c1 asc1 [of "[]" c1] by simp_all
      moreover have "(service_is_up ss \<or> log_service_is_up ss) \<and>
          (\<forall>e \<in> set (e # evs). reports_some_service_up e) \<longrightarrow>
            concat (map (\<lambda>(a, b). file_range a b file') r1) = file_range c c1 file'"
        using c1(6) tick_up res(3) by blast
      ultimately show ?thesis by blast
    next
      case True
      obtain outs2 ss2 file2 where
        run: "log_poll_loop dec tail_cmd strip_ansi_codes evs file ss1 = (outs2, ss2, file2)"
        by (cases "log_poll_loop dec tail_cmd strip_ansi_codes evs file ss1")
      have res: "outs = out @ outs2" "ss' = ss2" "file' = file2"
        using Cons.prems(5) LogTick step True run by simp_all
      have c1pos: "0 \<le> c1"
        using Cons.prems(3) c1(2) by simp
      from Cons.IH [OF rest c1(1) c1pos c1(3) run]
      obtain c' rs bs where c': "cursor ss2 = Some c'" "c' \<le> file_size file2"
          "file_bytes file2 = file_bytes file @ bs"
          "outs2 = map (\<lambda>(a, b). decode dec (file_range a b file2)) rs"
          "ascending_ranges c1 rs c'"
          "(service_is_up ss1 \<or> log_service_is_up ss1) \<and>
           (\<forall>e \<in> set evs. reports_some_service_up e) \<longrightarrow>
             concat (map (\<lambda>(a, b). file_range a b file2) rs) = file_range c1 c' file2"
        by blast
      have g1: "map (\<lambda>(a, b). decode dec (file_range a b file2)) r1 =
            map (\<lambda>(a, b). decode dec (file_range a b file)) r1"
        and g2: "map (\<lambda>(a, b). file_range a b file2) r1 =
            map (\<lambda>(a, b). file_range a b file) r1"
        and g3: "file_range c c1 file2 = file_range c c1 file"
        using grow [OF c'(3)] by blast+
      have le: "c1 \<le> c'"
        using c'(5) by (rule ascending_ranges_le)
      have o: "outs = map (\<lambda>(a, b). decode dec (file_range a b file2)) (r1 @ rs)"
        unfolding res(1) c1(4) c'(4) map_append g1 ..
      have a: "ascending_ranges c (r1 @ rs) c'"
        using c'(5) by (rule asc1)
      have t: "concat (map (\<lambda>(a, b). file_range a b file2) (r1 @ rs)) = file_range c c' file2"
        if up: "service_is_up ss \<or> log_service_is_up ss"
          and all: "\<forall>e \<in> set (e # evs). reports_some_service_up e"
      proof -
        have one: "service_is_up ss1 \<or> log_service_is_up ss1"
            "concat (map (\<lambda>(a, b). file_range a b file) r1) = file_range c c1 file"
          using c1(6) up tick_up [OF all] by blast+
        have two: "concat (map (\<lambda>(a, b). file_range a b file2) rs) = file_range c1 c' file2"
          using c'(6) one(1) all by simp
        have "concat (map (\<lambda>(a, b). file_range a b file2) (r1 @ rs)) =
            file_range c c1 file2 @ file_range c1 c' file2"
          unfolding map_append concat_append g2 one(2) two g3 ..
        then show ?thesis
          using file_range_append [OF Cons.prems(3) c1(2) le] by simp
      qed
      show ?thesis
        using res(2,3) c'(1,2,3) o a t by blast
    qed
  qed
qed

text \<open>
  A session with its cursor at 3 on the file \<open>abc\<close>: \<open>xyz\<close> is appended and a round
  delivers it, \<open>!\<close> is appended and the next round delivers it; the cursor ends at 7.
  The bytes are read one code point each (\<open>x\<close> is 120, \<open>!\<close> is 33).
\<close>

theorem log_tailing_contiguous_witness:
  "log_poll_loop bytewise_decoder (\<lambda>n content. Some (map of_char content)) (\<lambda>x. x)
     [Append ''xyz'',
      LogTick \<lparr>lt_now = 10, lt_status = (True, False), lt_agent_ok = True, lt_send_ok = True\<rparr>,
      Append ''!'',
      LogTick \<lparr>lt_now = 11, lt_status = (True, True), lt_agent_ok = True, lt_send_ok = True\<rparr>]
     (Some ''abc'')
     \<lparr>cursor = Some 3, fallback_logs_sent = False, last_service_status_check = 0,
      service_is_up = True, log_service_is_up = True\<rparr> =
   ([[120, 121, 122], [33]],
    \<lparr>cursor = Some 7, fallback_logs_sent = False, last_service_status_check = 11,
     service_is_up = True, log_service_is_up = True\<rparr>,
    Some ''abcxyz!'') \<and>
   (\<exists>rs. [[120, 121, 122], [33]] =
           map (\<lambda>(a, b). decode bytewise_decoder (file_range a b (Some ''abcxyz!''))) rs \<and>
         ascending_ranges 3 rs 7 \<and>
         concat (map (\<lambda>(a, b). file_range a b (Some ''abcxyz!'')) rs) =
           file_range 3 7 (Some ''abcxyz!''))"
proof -
  let ?evs = "[Append ''xyz'',
      LogTick \<lparr>lt_now = 10, lt_status = (True, False), lt_agent_ok = True, lt_send_ok = True\<rparr>,
      Append ''!'',
      LogTick \<lparr>lt_now = 11, lt_status = (True, True), lt_agent_ok = True, lt_send_ok = True\<rparr>]"
  let ?ss = "\<lparr>cursor = Some 3, fallback_logs_sent = False, last_service_status_check = 0,
      service_is_up = True, log_service_is_up = True\<rparr>"
  let ?ss' = "\<lparr>cursor = Some 7, fallback_logs_sent = False, last_service_status_check = 11,
     service_is_up = True, log_service_is_up = True\<rparr>"
  have h1: "\<forall>e \<in> set ?evs. is_append_or_tick e"
    by simp
  have h2: "cursor ?ss = Some 3" by simp
  have h3: "(0::int) \<le> 3" by simp
  have h4: "3 \<le> file_size (Some ''abc'')"
    by (simp add: file_size_def file_bytes_def)
  have h5: "(service_is_up ?ss \<or> log_service_is_up ?ss) \<and>
      (\<forall>e \<in> set ?evs. reports_some_service_up e)"
    by simp
  have h6: "log_poll_loop bytewise_decoder (\<lambda>n content. Some (map of_char content)) (\<lambda>x. x)
      ?evs (Some ''abc'') ?ss = ([[120, 121, 122], [33]], ?ss', Some ''abcxyz!'')"
    by (simp add: log_poll_step_def check_status_if_due_def SERVICE_STATUS_CHECK_INTERVAL_def
          client_get_service_logs_def get_service_logs_def INITIAL_LOG_TAIL_def Let_def
          decode_bytewise)
  show ?thesis
    using log_tailing_contiguous [OF h1 h2 h3 h4 h6] h5 h6 by auto
qed

text \<open>
  Bytes are skipped when a status check reports both the service and its log service
  down. The cursor is at 3 on the file \<open>abc\<close>; \<open>xyz\<close> is appended and the round that
  fetches it finds both services down: it sends nothing and moves the cursor to 6. Then
  \<open>!\<close> is appended, the services are up again, and the next round delivers \<open>!\<close>. The
  bytes \<open>xyz\<close> were in the file before \<open>!\<close> and are never delivered: what was delivered
  is not the decoding of ranges that cover the file from 3 to 7.
\<close>

theorem log_tailing_drops_counterexample:
  "log_poll_loop bytewise_decoder (\<lambda>n content. Some (map of_char content)) (\<lambda>x. x)
     [Append ''xyz'',
      LogTick \<lparr>lt_now = 10, lt_status = (False, False), lt_agent_ok = True, lt_send_ok = True\<rparr>,
      Append ''!'',
      LogTick \<lparr>lt_now = 11, lt_status = (True, True), lt_agent_ok = True, lt_send_ok = True\<rparr>]
     (Some ''abc'')
     \<lparr>cursor = Some 3, fallback_logs_sent = False, last_service_status_check = 0,
      service_is_up = True, log_service_is_up = True\<rparr> =
   ([[33]],
    \<lparr>cursor = Some 7, fallback_logs_sent = False, last_service_status_check = 11,
     service_is_up = True, log_service_is_up = True\<rparr>,
    Some ''abcxyz!'') \<and>
   file_range 3 7 (Some ''abcxyz!'') = ''xyz!'' \<and>
   \<not> (\<exists>rs. [[33]] =
            map (\<lambda>(a, b). decode bytewise_decoder (file_range a b (Some ''abcxyz!''))) rs \<and>
          concat (map (\<lambda>(a, b). file_range a b (Some ''abcxyz!'')) rs) =
            file_range 3 7 (Some ''abcxyz!''))"
proof -
  have run: "log_poll_loop bytewise_decoder (\<lambda>n content. Some (map of_char content)) (\<lambda>x. x)
     [Append ''xyz'',
      LogTick \<lparr>lt_now = 10, lt_status = (False, False), lt_agent_ok = True, lt_send_ok = True\<rparr>,
      Append ''!'',
      LogTick \<lparr>lt_now = 11, lt_status = (True, True), lt_agent_ok = True, lt_send_ok = True\<rparr>]
     (Some ''abc'')
     \<lparr>cursor = Some 3, fallback_logs_sent = False, last_service_status_check = 0,
      service_is_up = True, log_service_is_up = True\<rparr> =
   ([[33]],
    \<lparr>cursor = Some 7, fallback_logs_sent = False, last_service_status_check = 11,
     service_is_up = True, log_service_is_up = True\<rparr>,
    Some ''abcxyz!'')"
    by (simp add: log_poll_step_def check_status_if_due_def SERVICE_STATUS_CHECK_INTERVAL_def
          client_get_service_logs_def get_service_logs_def INITIAL_LOG_TAIL_def Let_def
          decode_bytewise)
  have rng: "file_range 3 7 (Some ''abcxyz!'') = ''xyz!''"
    by (simp add: file_range_def file_bytes_def)
  have no: False
    if "[[33]] = map (\<lambda>(a, b). decode bytewise_decoder (file_range a b (Some ''abcxyz!''))) rs"
      and "concat (map (\<lambda>(a, b). file_range a b (Some ''abcxyz!'')) rs) = ''xyz!''"
    for rs
  proof -
    from that(1) obtain a b where rs: "rs = [(a, b)]"
      by (cases rs) auto
    then have "file_range a b (Some ''abcxyz!'') = ''xyz!''"
      using that(2) by simp
    then show False
      using that(1) rs by (simp add: decode_bytewise)
  qed
  have neg: "\<not> (\<exists>rs. [[33]] =
            map (\<lambda>(a, b). decode bytewise_decoder (file_range a b (Some ''abcxyz!''))) rs \<and>
          concat (map (\<lambda>(a, b). file_range a b (Some ''abcxyz!'')) rs) =
            file_range 3 7 (Some ''abcxyz!''))"
  proof
    assume "\<exists>rs. [[33]] =
            map (\<lambda>(a, b). decode bytewise_decoder (file_range a b (Some ''abcxyz!''))) rs \<and>
          concat (map (\<lambda>(a, b). file_range a b (Some ''abcxyz!'')) rs) =
            file_range 3 7 (Some ''abcxyz!'')"
    then obtain rs where
      a: "[[33]] =
            map (\<lambda>(a, b). decode bytewise_decoder (file_range a b (Some ''abcxyz!''))) rs"
      and b: "concat (map (\<lambda>(a, b). file_range a b (Some ''abcxyz!'')) rs) =
            file_range 3 7 (Some ''abcxyz!'')"
      by (elim exE conjE)
    from no [OF a b [unfolded rng]] show False .
  qed
  show ?thesis
    by (intro conjI) (rule run, rule rng, rule neg)
qed

section \<open>Topic streaming: the unavailable notice\<close>

lemma get_topic_msg_type_listed:
  "topic \<in> set (list_topics p) \<Longrightarrow> \<exists>ty. get_topic_msg_type p topic = Inr ty"
  by (auto simp: get_topic_msg_type_def list_topics_def keys_def map_of_eq_None_iff
        split: option.splits)

lemma get_topic_data_fields [simp]:
  "domain_id (snd (get_topic_data conv now t s)) = domain_id s"
  by (simp add: get_topic_data_def split: option.splits)

lemma is_topic_available_fields [simp]:
  "domain_id (snd (is_topic_available now t s)) = domain_id s"
  by (simp add: is_topic_available_def split: option.splits)

lemma plugin_after_reads_fields [simp]:
  "list_topics (plugin_after_reads conv clk topic plugin) = list_topics plugin"
  "domain_id (plugin_after_reads conv clk topic plugin) = domain_id plugin"
  by (simp_all add: list_topics_def plugin_after_reads_def)

text \<open>
  A poll that is not throttled, after the two reads: \<open>cd\<close> is what the get returned
  and \<open>av\<close> what the availability check said.
\<close>

lemma poll_after_reads:
  assumes "topic \<in> set (list_topics plugin)"
    and "\<not> pc_now clk - lst < mi"
    and "fst (get_topic_data conv (pc_get clk) topic plugin) = cd"
    and "fst (is_topic_available (pc_avail clk) topic
           (snd (get_topic_data conv (pc_get clk) topic plugin))) = av"
  shows "\<exists>ty. get_topic_msg_type (plugin_after_reads conv clk topic plugin) topic = Inr ty \<and>
     poll_and_send_single_topic_data conv hash_str clk container plugin topic lst lh mi =
       (case cd of
          Some d \<Rightarrow>
            if Some (hash_str (data d)) \<noteq> lh \<or> \<not> av
            then \<lparr>pr_return = Inr (pc_send_ok clk, pc_now clk, Some (hash_str (data d))),
                  pr_message = Some \<lparr>rsp_container = container, rsp_topic = topic,
                     rsp_msg_type = ty, rsp_data = Some (data d), rsp_available = av,
                     rsp_domain_id = domain_id plugin\<rparr>,
                  pr_plugin = plugin_after_reads conv clk topic plugin\<rparr>
            else \<lparr>pr_return = Inr (True, lst, lh), pr_message = None,
                  pr_plugin = plugin_after_reads conv clk topic plugin\<rparr>
        | None \<Rightarrow>
            if \<not> av \<and> lh \<noteq> Some (- 1)
            then \<lparr>pr_return = Inr (pc_send_ok clk, pc_now clk, Some (- 1)),
                  pr_message = Some \<lparr>rsp_container = container, rsp_topic = topic,
                     rsp_msg_type = ty, rsp_data = None, rsp_available = False,
                     rsp_domain_id = domain_id plugin\<rparr>,
                  pr_plugin = plugin_after_reads conv clk topic plugin\<rparr>
            else \<lparr>pr_return = Inr (True, lst, lh), pr_message = None,
                  pr_plugin = plugin_after_reads conv clk topic plugin\<rparr>)"
proof -
  obtain p1 where r1: "get_topic_data conv (pc_get clk) topic plugin = (cd, p1)"
    using assms(3) by (cases "get_topic_data conv (pc_get clk) topic plugin") auto
  obtain p2 where r2: "is_topic_available (pc_avail clk) topic p1 = (av, p2)"
    using assms(4) r1 by (cases "is_topic_available (pc_avail clk) topic p1") auto
  have p2: "plugin_after_reads conv clk topic plugin = p2"
    using r1 r2 by (simp add: plugin_after_reads_def)
  have dom: "domain_id p2 = domain_id plugin"
    using plugin_after_reads_fields(2) [of conv clk topic plugin] p2 by simp
  obtain ty where ty: "get_topic_msg_type p2 topic = Inr ty"
    using get_topic_msg_type_listed [of topic p2] assms(1)
      plugin_after_reads_fields(1) [of conv clk topic plugin] p2 by auto
  have "poll_and_send_single_topic_data conv hash_str clk container plugin topic lst lh mi =
       (case cd of
          Some d \<Rightarrow>
            if Some (hash_str (data d)) \<noteq> lh \<or> \<not> av
            then \<lparr>pr_return = Inr (pc_send_ok clk, pc_now clk, Some (hash_str (data d))),
                  pr_message = Some \<lparr>rsp_container = container, rsp_topic = topic,
                     rsp_msg_type = ty, rsp_data = Some (data d), rsp_available = av,
                     rsp_domain_id = domain_id plugin\<rparr>,
                  pr_plugin = p2\<rparr>
            else \<lparr>pr_return = Inr (True, lst, lh), pr_message = None, pr_plugin = p2\<rparr>
        | None \<Rightarrow>
            if \<not> av \<and> lh \<noteq> Some (- 1)
            then \<lparr>pr_return = Inr (pc_send_ok clk, pc_now clk, Some (- 1)),
                  pr_message = Some \<lparr>rsp_container = container, rsp_topic = topic,
                     rsp_msg_type = ty, rsp_data = None, rsp_available = False,
                     rsp_domain_id = domain_id plugin\<rparr>,
                  pr_plugin = p2\<rparr>
            else \<lparr>pr_return = Inr (True, lst, lh), pr_message = None, pr_plugin = p2\<rparr>)"
    using assms(2) r1 r2 ty dom
    by (auto simp: poll_and_send_single_topic_data_def unavailable_notice_def
          split: option.splits)
  then show ?thesis
    unfolding p2 using ty by blast
qed

lemma reads_without_entry:
  assumes "map_of (msg_cache plugin) topic = None"
  shows "get_topic_data conv t1 topic plugin = (None, plugin)"
    and "is_topic_available t2 topic plugin = (False, plugin)"
  using assms by (simp_all add: get_topic_data_def is_topic_available_def)

lemma poll_without_entry:
  assumes "map_of (msg_cache plugin) topic = None"
  shows "pr_plugin (poll_and_send_single_topic_data conv hash_str clk container plugin topic
           lst lh mi) = plugin \<and>
         ((pr_message (poll_and_send_single_topic_data conv hash_str clk container plugin
             topic lst lh mi) = None \<and>
           (pr_return (poll_and_send_single_topic_data conv hash_str clk container plugin
              topic lst lh mi) = Inr (True, lst, lh) \<or>
            (\<exists>e. pr_return (poll_and_send_single_topic_data conv hash_str clk container
              plugin topic lst lh mi) = Inl e))) \<or>
          (lh \<noteq> Some (- 1) \<and>
           pr_return (poll_and_send_single_topic_data conv hash_str clk container plugin
              topic lst lh mi) = Inr (pc_send_ok clk, pc_now clk, Some (- 1)) \<and>
           (\<exists>m. pr_message (poll_and_send_single_topic_data conv hash_str clk container
              plugin topic lst lh mi) = Some m \<and> rsp_data m = None \<and> \<not> rsp_available m)))"
  by (simp add: poll_and_send_single_topic_data_def reads_without_entry [OF assms]
        unavailable_notice_def split: sum.splits)

lemma topic_poll_loop_without_entry:
  assumes "map_of (msg_cache plugin) topic = None"
    and "\<forall>e \<in> set evs. \<not> publishes_to topic e"
  shows "length (topic_poll_loop conv hash_str container topic mi evs plugin lst lh) \<le> 1 \<and>
         (\<forall>(t, m) \<in> set (topic_poll_loop conv hash_str container topic mi evs plugin lst lh).
            rsp_data m = None \<and> \<not> rsp_available m) \<and>
         (lh = Some (- 1) \<longrightarrow>
            topic_poll_loop conv hash_str container topic mi evs plugin lst lh = [])"
  using assms
proof (induction evs arbitrary: plugin lst lh)
  case Nil
  then show ?case by simp
next
  case (Cons e evs)
  have rest: "\<forall>e \<in> set evs. \<not> publishes_to topic e"
    using Cons.prems(2) by simp
  show ?case
  proof (cases e)
    case (Publish t now msg)
    then have "t \<noteq> topic"
      using Cons.prems(2) by simp
    then have "map_of (msg_cache (msg_callback t now msg plugin)) topic = None"
      using Cons.prems(1) by (simp add: msg_callback_def update_conv')
    from Cons.IH [OF this rest] show ?thesis
      using Publish by simp
  next
    case (PollTick clk)
    define r where "r = poll_and_send_single_topic_data conv hash_str clk container plugin
        topic lst lh mi"
    have step: "topic_poll_loop conv hash_str container topic mi (e # evs) plugin lst lh =
        (case pr_return r of
           Inl e \<Rightarrow> []
         | Inr (connection_alive, new_lst, new_lh) \<Rightarrow>
             if \<not> connection_alive then []
             else (case pr_message r of None \<Rightarrow> [] | Some m \<Rightarrow> [(pc_now clk, m)]) @
                  topic_poll_loop conv hash_str container topic mi evs (pr_plugin r)
                    new_lst new_lh)"
      unfolding r_def using PollTick by (simp add: Let_def)
    have "pr_plugin r = plugin \<and>
          ((pr_message r = None \<and>
            (pr_return r = Inr (True, lst, lh) \<or> (\<exists>e. pr_return r = Inl e))) \<or>
           (lh \<noteq> Some (- 1) \<and>
            pr_return r = Inr (pc_send_ok clk, pc_now clk, Some (- 1)) \<and>
            (\<exists>m. pr_message r = Some m \<and> rsp_data m = None \<and> \<not> rsp_available m)))"
      unfolding r_def using Cons.prems(1) by (rule poll_without_entry)
    then consider
        (quiet) "pr_plugin r = plugin" "pr_message r = None"
          "pr_return r = Inr (True, lst, lh)"
      | (raised) err where "pr_return r = Inl err"
      | (sent) m where "pr_plugin r = plugin" "lh \<noteq> Some (- 1)"
          "pr_return r = Inr (pc_send_ok clk, pc_now clk, Some (- 1))"
          "pr_message r = Some m" "rsp_data m = None" "\<not> rsp_available m"
      by auto
    then show ?thesis
    proof cases
      case quiet
      then have eq: "topic_poll_loop conv hash_str container topic mi (e # evs) plugin lst lh =
          topic_poll_loop conv hash_str container topic mi evs plugin lst lh"
        by (simp add: step)
      show ?thesis
        unfolding eq by (rule Cons.IH [OF Cons.prems(1) rest])
    next
      case raised
      then have eq: "topic_poll_loop conv hash_str container topic mi (e # evs) plugin lst lh =
          []"
        by (simp add: step)
      show ?thesis
        unfolding eq by simp
    next
      case sent
      have "topic_poll_loop conv hash_str container topic mi evs plugin (pc_now clk)
          (Some (- 1)) = []"
        using Cons.IH [OF Cons.prems(1) rest, of "pc_now clk" "Some (- 1)"] by simp
      then have eq: "topic_poll_loop conv hash_str container topic mi (e # evs) plugin
          lst lh = (if pc_send_ok clk then [(pc_now clk, m)] else [])"
        using sent by (simp add: step)
      show ?thesis
        unfolding eq using sent(2,5,6) by simp
    qed
  qed
qed

lemma unavailable_same_clock:
  assumes "topic \<in> set (list_topics plugin)" and "pc_get clk = pc_avail clk"
  shows "feed_unavailable_at conv clk topic plugin \<longleftrightarrow>
         \<not> fst (is_topic_available (pc_avail clk) topic
               (snd (get_topic_data conv (pc_get clk) topic plugin)))"
  using assms
  by (auto simp: feed_unavailable_at_def get_topic_data_def is_topic_available_def
        list_topics_def has_key_def split: option.splits)

text \<open>
  C6, as the code has it. The topic is a configured one (the session checked it on
  connect) and the poll is not throttled.

  When the get returns nothing and the availability check says no, the tracking state
  decides: when it is the sentinel \<open>-1\<close> nothing is sent and the state stays; otherwise
  exactly one notice without data and with \<open>available = False\<close> is handed to the socket
  and the state becomes the sentinel, with the poll's clock reading as the send time.

  When the get still returned a value and the availability check, at its later clock
  reading, says no, the value is sent with \<open>available = False\<close> and the state becomes
  the hash of the value, not the sentinel.

  While the cache has no entry for the feed and nothing is published to it, the loop
  delivers at most one message, a notice without data and with \<open>available = False\<close>,
  and none when it starts from the sentinel.
\<close>

theorem unavailable_notice_once:
  assumes "topic \<in> set (list_topics plugin)"
  shows "(\<not> pc_now clk - lst < mi \<and> feed_unavailable_at conv clk topic plugin \<longrightarrow>
            (\<exists>ty. get_topic_msg_type (plugin_after_reads conv clk topic plugin) topic = Inr ty \<and>
               poll_and_send_single_topic_data conv hash_str clk container plugin topic
                 lst lh mi =
               (if lh = Some (- 1)
                then \<lparr>pr_return = Inr (True, lst, lh), pr_message = None,
                      pr_plugin = plugin_after_reads conv clk topic plugin\<rparr>
                else \<lparr>pr_return = Inr (pc_send_ok clk, pc_now clk, Some (- 1)),
                      pr_message = Some \<lparr>rsp_container = container, rsp_topic = topic,
                         rsp_msg_type = ty, rsp_data = None, rsp_available = False,
                         rsp_domain_id = domain_id plugin\<rparr>,
                      pr_plugin = plugin_after_reads conv clk topic plugin\<rparr>))) \<and>
         (\<not> pc_now clkr - lst < mi \<and>
          fst (get_topic_data conv (pc_get clkr) topic plugin) = Some d \<and>
          \<not> fst (is_topic_available (pc_avail clkr) topic
                 (snd (get_topic_data conv (pc_get clkr) topic plugin))) \<longrightarrow>
            (\<exists>ty. get_topic_msg_type (plugin_after_reads conv clkr topic plugin) topic = Inr ty \<and>
               poll_and_send_single_topic_data conv hash_str clkr container plugin topic
                 lst lh mi =
               \<lparr>pr_return = Inr (pc_send_ok clkr, pc_now clkr, Some (hash_str (data d))),
                pr_message = Some \<lparr>rsp_container = container, rsp_topic = topic,
                   rsp_msg_type = ty, rsp_data = Some (data d), rsp_available = False,
                   rsp_domain_id = domain_id plugin\<rparr>,
                pr_plugin = plugin_after_reads conv clkr topic plugin\<rparr>)) \<and>
         (map_of (msg_cache plugin) topic = None \<and>
          (\<forall>e \<in> set evs. \<not> publishes_to topic e) \<longrightarrow>
            length (topic_poll_loop conv hash_str container topic mi evs plugin lst lh) \<le> 1 \<and>
            (\<forall>(t, m) \<in> set (topic_poll_loop conv hash_str container topic mi evs plugin
                               lst lh).
               rsp_data m = None \<and> \<not> rsp_available m) \<and>
            topic_poll_loop conv hash_str container topic mi evs plugin lst' (Some (- 1)) = [])"
proof (intro conjI impI)
  assume a: "\<not> pc_now clk - lst < mi \<and> feed_unavailable_at conv clk topic plugin"
  then have g: "fst (get_topic_data conv (pc_get clk) topic plugin) = None"
    and v: "fst (is_topic_available (pc_avail clk) topic
           (snd (get_topic_data conv (pc_get clk) topic plugin))) = False"
    by (simp_all add: feed_unavailable_at_def)
  from poll_after_reads [OF assms _ g v, of lst mi hash_str container lh] a
  show "\<exists>ty. get_topic_msg_type (plugin_after_reads conv clk topic plugin) topic = Inr ty \<and>
       poll_and_send_single_topic_data conv hash_str clk container plugin topic lst lh mi =
       (if lh = Some (- 1)
        then \<lparr>pr_return = Inr (True, lst, lh), pr_message = None,
              pr_plugin = plugin_after_reads conv clk topic plugin\<rparr>
        else \<lparr>pr_return = Inr (pc_send_ok clk, pc_now clk, Some (- 1)),
              pr_message = Some \<lparr>rsp_container = container, rsp_topic = topic,
                 rsp_msg_type = ty, rsp_data = None, rsp_available = False,
                 rsp_domain_id = domain_id plugin\<rparr>,
              pr_plugin = plugin_after_reads conv clk topic plugin\<rparr>)"
    by auto
next
  assume a: "\<not> pc_now clkr - lst < mi \<and>
      fst (get_topic_data conv (pc_get clkr) topic plugin) = Some d \<and>
      \<not> fst (is_topic_available (pc_avail clkr) topic
             (snd (get_topic_data conv (pc_get clkr) topic plugin)))"
  then have g: "fst (get_topic_data conv (pc_get clkr) topic plugin) = Some d"
    and v: "fst (is_topic_available (pc_avail clkr) topic
           (snd (get_topic_data conv (pc_get clkr) topic plugin))) = False"
    by simp_all
  from poll_after_reads [OF assms _ g v, of lst mi hash_str container lh] a
  show "\<exists>ty. get_topic_msg_type (plugin_after_reads conv clkr topic plugin) topic = Inr ty \<and>
       poll_and_send_single_topic_data conv hash_str clkr container plugin topic lst lh mi =
       \<lparr>pr_return = Inr (pc_send_ok clkr, pc_now clkr, Some (hash_str (data d))),
        pr_message = Some \<lparr>rsp_container = container, rsp_topic = topic,
           rsp_msg_type = ty, rsp_data = Some (data d), rsp_available = False,
           rsp_domain_id = domain_id plugin\<rparr>,
        pr_plugin = plugin_after_reads conv clkr topic plugin\<rparr>"
    by auto
next
  assume a: "map_of (msg_cache plugin) topic = None \<and>
      (\<forall>e \<in> set evs. \<not> publishes_to topic e)"
  then have h: "map_of (msg_cache plugin) topic = None"
      "\<forall>e \<in> set evs. \<not> publishes_to topic e"
    by simp_all
  show "length (topic_poll_loop conv hash_str container topic mi evs plugin lst lh) \<le> 1"
    using topic_poll_loop_without_entry [OF h] by blast
  show "\<forall>(t, m) \<in> set (topic_poll_loop conv hash_str container topic mi evs plugin lst lh).
      rsp_data m = None \<and> \<not> rsp_available m"
    using topic_poll_loop_without_entry [OF h] by blast
  show "topic_poll_loop conv hash_str container topic mi evs plugin lst' (Some (- 1)) = []"
    using topic_poll_loop_without_entry [OF h, of conv hash_str container mi lst'
        "Some (- 1)"] by blast
qed

text \<open>
  A session on the dynamic feed \<open>/a\<close> after the value 7, received at time 0, was sent.
  A poll whose get reads the clock at 3 and whose availability check reads it at 3.1
  sends the value with \<open>available = False\<close> and keeps the hash 7. A poll at time 5 finds
  nothing, sends the notice and sets the sentinel. On a plugin without an entry, three
  polls deliver at most one message, and none from the sentinel.
\<close>

theorem unavailable_notice_once_witness:
  "poll_and_send_single_topic_data (\<lambda>x. x) int
     \<lparr>pc_now = 5, pc_get = 5, pc_avail = 5, pc_send_ok = True\<rparr> ''robot''
     (msg_callback ''/a'' 0 (7::nat) (init_plugin ''robot'' [(''/a'', ''A'')] [] 30))
     ''/a'' 0 (Some 7) 0.1 =
   \<lparr>pr_return = Inr (True, 5, Some (- 1)),
    pr_message = Some \<lparr>rsp_container = ''robot'', rsp_topic = ''/a'', rsp_msg_type = ''A'',
       rsp_data = None, rsp_available = False, rsp_domain_id = 30\<rparr>,
    pr_plugin = init_plugin ''robot'' [(''/a'', ''A'')] [] 30\<rparr> \<and>
   poll_and_send_single_topic_data (\<lambda>x. x) int
     \<lparr>pc_now = 3, pc_get = 3, pc_avail = 3.1, pc_send_ok = True\<rparr> ''robot''
     (msg_callback ''/a'' 0 (7::nat) (init_plugin ''robot'' [(''/a'', ''A'')] [] 30))
     ''/a'' 0 (Some 7) 0.1 =
   \<lparr>pr_return = Inr (True, 3, Some 7),
    pr_message = Some \<lparr>rsp_container = ''robot'', rsp_topic = ''/a'', rsp_msg_type = ''A'',
       rsp_data = Some 7, rsp_available = False, rsp_domain_id = 30\<rparr>,
    pr_plugin = init_plugin ''robot'' [(''/a'', ''A'')] [] 30\<rparr> \<and>
   length (topic_poll_loop (\<lambda>x. x) int ''robot'' ''/a'' 0.1
     [PollTick \<lparr>pc_now = 1, pc_get = 1, pc_avail = 1, pc_send_ok = True\<rparr>,
      PollTick \<lparr>pc_now = 1.2, pc_get = 1.2, pc_avail = 1.2, pc_send_ok = True\<rparr>,
      PollTick \<lparr>pc_now = 1.4, pc_get = 1.4, pc_avail = 1.4, pc_send_ok = True\<rparr>]
     (init_plugin ''robot'' [(''/a'', ''A'')] [] 30 :: nat plugin) 0 (Some 7)) \<le> 1 \<and>
   topic_poll_loop (\<lambda>x. x) int ''robot'' ''/a'' 0.1
     [PollTick \<lparr>pc_now = 1, pc_get = 1, pc_avail = 1, pc_send_ok = True\<rparr>,
      PollTick \<lparr>pc_now = 1.2, pc_get = 1.2, pc_avail = 1.2, pc_send_ok = True\<rparr>,
      PollTick \<lparr>pc_now = 1.4, pc_get = 1.4, pc_avail = 1.4, pc_send_ok = True\<rparr>]
     (init_plugin ''robot'' [(''/a'', ''A'')] [] 30 :: nat plugin) 0 (Some (- 1)) = []"
proof -
  let ?i = "init_plugin ''robot'' [(''/a'', ''A'')] [] 30 :: nat plugin"
  let ?p = "msg_callback ''/a'' 0 (7::nat) ?i"
  let ?clk = "\<lparr>pc_now = 5, pc_get = 5, pc_avail = 5, pc_send_ok = True\<rparr>"
  let ?clkr = "\<lparr>pc_now = 3, pc_get = 3, pc_avail = 3.1, pc_send_ok = True\<rparr>"
  let ?evs = "[PollTick \<lparr>pc_now = 1, pc_get = 1, pc_avail = 1, pc_send_ok = True\<rparr>,
      PollTick \<lparr>pc_now = 1.2, pc_get = 1.2, pc_avail = 1.2, pc_send_ok = True\<rparr>,
      PollTick \<lparr>pc_now = 1.4, pc_get = 1.4, pc_avail = 1.4, pc_send_ok = True\<rparr>]
        :: nat topic_event list"
  have listed: "''/a'' \<in> set (list_topics ?p)" "''/a'' \<in> set (list_topics ?i)"
    by (simp_all add: list_topics_def keys_def init_plugin_def msg_callback_def)
  have fresh: "\<not> pc_now ?clk - 0 < (0.1 :: real)" "\<not> pc_now ?clkr - 0 < (0.1 :: real)"
    by simp_all
  have gone: "feed_unavailable_at (\<lambda>x. x) ?clk ''/a'' ?p"
    by (simp add: feed_unavailable_at_def get_topic_data_def is_topic_available_def
          init_plugin_def msg_callback_def has_key_def keys_def DYNAMIC_TOPIC_STALE_TIME_def)
  have got: "fst (get_topic_data (\<lambda>x. x) (pc_get ?clkr) ''/a'' ?p) =
      Some \<lparr>data = 7, td_received_at = Some 0\<rparr>"
    by (simp add: get_topic_data_def init_plugin_def msg_callback_def has_key_def keys_def
          DYNAMIC_TOPIC_STALE_TIME_def)
  have late: "\<not> fst (is_topic_available (pc_avail ?clkr) ''/a''
      (snd (get_topic_data (\<lambda>x. x) (pc_get ?clkr) ''/a'' ?p)))"
    by (simp add: get_topic_data_def is_topic_available_def init_plugin_def msg_callback_def
          has_key_def keys_def DYNAMIC_TOPIC_STALE_TIME_def)
  have after: "plugin_after_reads (\<lambda>x. x) ?clk ''/a'' ?p = ?i"
      "plugin_after_reads (\<lambda>x. x) ?clkr ''/a'' ?p = ?i"
    by (simp_all add: plugin_after_reads_def get_topic_data_def is_topic_available_def
          init_plugin_def msg_callback_def has_key_def keys_def DYNAMIC_TOPIC_STALE_TIME_def)
  have ty: "get_topic_msg_type ?i ''/a'' = Inr ''A''"
    by (simp add: get_topic_msg_type_def init_plugin_def)
  have dom: "domain_id ?p = 30"
    by (simp add: init_plugin_def msg_callback_def)
  have empty: "map_of (msg_cache ?i) ''/a'' = None"
    by (simp add: init_plugin_def)
  have quiet: "\<forall>e \<in> set ?evs. \<not> publishes_to ''/a'' e"
    by simp
  have one: "poll_and_send_single_topic_data (\<lambda>x. x) int ?clk ''robot'' ?p ''/a'' 0 (Some 7)
        0.1 =
      \<lparr>pr_return = Inr (True, 5, Some (- 1)),
       pr_message = Some \<lparr>rsp_container = ''robot'', rsp_topic = ''/a'', rsp_msg_type = ''A'',
          rsp_data = None, rsp_available = False, rsp_domain_id = 30\<rparr>,
       pr_plugin = ?i\<rparr>"
    using unavailable_notice_once [OF listed(1), where clk = ?clk and lst = 0 and mi = "0.1"
        and conv = "\<lambda>x. x" and hash_str = int and container = "''robot''"
        and lh = "Some 7"] fresh(1) gone after(1) ty dom
    by auto
  have two: "poll_and_send_single_topic_data (\<lambda>x. x) int ?clkr ''robot'' ?p ''/a'' 0 (Some 7)
        0.1 =
      \<lparr>pr_return = Inr (True, 3, Some 7),
       pr_message = Some \<lparr>rsp_container = ''robot'', rsp_topic = ''/a'', rsp_msg_type = ''A'',
          rsp_data = Some 7, rsp_available = False, rsp_domain_id = 30\<rparr>,
       pr_plugin = ?i\<rparr>"
    using unavailable_notice_once [OF listed(1), where clkr = ?clkr and lst = 0 and mi = "0.1"
        and conv = "\<lambda>x. x" and hash_str = int and container = "''robot''"
        and lh = "Some 7" and d = "\<lparr>data = 7, td_received_at = Some 0\<rparr>"]
      fresh(2) got late after(2) ty dom
    by auto
  have three: "length (topic_poll_loop (\<lambda>x. x) int ''robot'' ''/a'' 0.1 ?evs ?i 0 (Some 7)) \<le> 1"
      "topic_poll_loop (\<lambda>x. x) int ''robot'' ''/a'' 0.1 ?evs ?i 0 (Some (- 1)) = []"
    using unavailable_notice_once [OF listed(2), where evs = ?evs and lst = 0 and mi = "0.1"
        and conv = "\<lambda>x. x" and hash_str = int and container = "''robot''"
        and lh = "Some 7" and lst' = 0] empty quiet
    by blast+
  show ?thesis
    by (intro conjI) (rule one, rule two, rule three(1), rule three(2))
qed

text \<open>
  The same session shows why the availability check alone does not decide. On the poll
  with clock readings 3 and 3.1 the check says the feed is unavailable and the tracking
  state is a hash, yet what is sent carries the value and the state stays a hash. The
  poll at 3.2 then finds nothing and sends the notice: two messages with
  \<open>available = False\<close> in one unavailable period.
\<close>

theorem unavailable_with_value_counterexample:
  "\<not> fst (is_topic_available 3.1 ''/a''
      (snd (get_topic_data (\<lambda>x. x) 3 ''/a''
         (msg_callback ''/a'' 0 (7::nat) (init_plugin ''robot'' [(''/a'', ''A'')] [] 30))))) \<and>
   pr_return (poll_and_send_single_topic_data (\<lambda>x. x) int
     \<lparr>pc_now = 3, pc_get = 3, pc_avail = 3.1, pc_send_ok = True\<rparr> ''robot''
     (msg_callback ''/a'' 0 (7::nat) (init_plugin ''robot'' [(''/a'', ''A'')] [] 30))
     ''/a'' 0 (Some 7) 0.1) = Inr (True, 3, Some 7) \<and>
   topic_poll_loop (\<lambda>x. x) int ''robot'' ''/a'' 0.1
     [PollTick \<lparr>pc_now = 3, pc_get = 3, pc_avail = 3.1, pc_send_ok = True\<rparr>,
      PollTick \<lparr>pc_now = 3.2, pc_get = 3.2, pc_avail = 3.2, pc_send_ok = True\<rparr>]
     (msg_callback ''/a'' 0 (7::nat) (init_plugin ''robot'' [(''/a'', ''A'')] [] 30))
     0 (Some 7) =
   [(3, \<lparr>rsp_container = ''robot'', rsp_topic = ''/a'', rsp_msg_type = ''A'',
         rsp_data = Some 7, rsp_available = False, rsp_domain_id = 30\<rparr>),
    (3.2, \<lparr>rsp_container = ''robot'', rsp_topic = ''/a'', rsp_msg_type = ''A'',
           rsp_data = None, rsp_available = False, rsp_domain_id = 30\<rparr>)]"
  by (simp add: poll_and_send_single_topic_data_def get_topic_data_def
        is_topic_available_def msg_callback_def init_plugin_def has_key_def keys_def
        DYNAMIC_TOPIC_STALE_TIME_def get_topic_msg_type_def unavailable_notice_def Let_def)

end
